theory Spec2Isabelle
  imports Complex_Main "HOL-Library.Multiset" "HOL-Library.Sublist"
begin

section \<open>The Logfather: log parser and in-memory search engine\<close>

text \<open>
  A shallow embedding of the log parser (\<^verbatim>\<open>lib/logParser.js\<close>, whose text follows the
  README in \<^verbatim>\<open>src/README.md\<close>), of the search engine class \<^verbatim>\<open>LogSearchEngine\<close>
  (\<^verbatim>\<open>lib/searchEngine.js\<close>, whose text follows the file reader in
  \<^verbatim>\<open>src/lib/fileReader.js\<close>) and of the loader \<^verbatim>\<open>loadLogs\<close> (\<^verbatim>\<open>src/routes/api.js\<close>).

  Conventions of the embedding.
  \<^item> A JavaScript string is a \<^typ>\<open>string\<close>; a character stands for a code unit below 256
    (Latin-1), on which \<^verbatim>\<open>toLowerCase\<close>, \<^verbatim>\<open>trim\<close> and the class \<^verbatim>\<open>\W\<close> are given exactly.
  \<^item> A \<^verbatim>\<open>Date\<close> is its time value in milliseconds, or the invalid date (time value NaN).
  \<^item> A \<^verbatim>\<open>Map\<close> and a \<^verbatim>\<open>Set\<close> iterate in insertion order: the map is an association
    list with distinct keys, the set a list without repetitions.
  \<^item> An exception is a value: a function that can throw returns \<open>js_error + 'a\<close>.
  \<^item> \<^verbatim>\<open>Array.prototype.sort\<close> is the stable sort where ECMAScript defines its result, for a
    consistent comparator; otherwise its order is a parameter, the host's.
  \<^item> The numbers \<^verbatim>\<open>page\<close> and \<^verbatim>\<open>pageSize\<close> are integers (the route passes \<^verbatim>\<open>parseInt\<close> of
    the request parameters; NaN is outside the model).
\<close>

subsection \<open>Strings\<close>

definition code_unit :: "char \<Rightarrow> nat" where
  "code_unit c = of_char c"

text \<open>\<^verbatim>\<open>\w\<close> is \<^verbatim>\<open>[A-Za-z0-9_]\<close>; \<^verbatim>\<open>\W\<close> is its complement.\<close>

definition is_word_char :: "char \<Rightarrow> bool" where
  "is_word_char c =
     (let n = code_unit c
      in (48 \<le> n \<and> n \<le> 57) \<or> (65 \<le> n \<and> n \<le> 90) \<or> n = 95 \<or> (97 \<le> n \<and> n \<le> 122))"

definition is_digit :: "char \<Rightarrow> bool" where
  "is_digit c = (let n = code_unit c in 48 \<le> n \<and> n \<le> 57)"

text \<open>White space of \<^verbatim>\<open>String.prototype.trim\<close> among the code units below 256:
  TAB, LF, VT, FF, CR, space and the no-break space.\<close>

definition is_space :: "char \<Rightarrow> bool" where
  "is_space c = (let n = code_unit c in (9 \<le> n \<and> n \<le> 13) \<or> n = 32 \<or> n = 160)"

definition trim :: "string \<Rightarrow> string" where
  "trim s = rev (dropWhile is_space (rev (dropWhile is_space s)))"

text \<open>\<^verbatim>\<open>toLowerCase\<close>: A-Z and the Latin-1 capitals (0xC0-0xDE but the
  multiplication sign 0xD7) move up by 32.\<close>

definition lower_char :: "char \<Rightarrow> char" where
  "lower_char c =
     (let n = code_unit c
      in if (65 \<le> n \<and> n \<le> 90) \<or> (192 \<le> n \<and> n \<le> 222 \<and> n \<noteq> 215)
         then char_of (n + 32) else c)"

definition toLowerCase :: "string \<Rightarrow> string" where
  "toLowerCase s = map lower_char s"

text \<open>\<^verbatim>\<open>s.includes(t)\<close>: \<open>t\<close> occurs in \<open>s\<close> as a contiguous substring.\<close>

primrec js_includes :: "string \<Rightarrow> string \<Rightarrow> bool" where
  "js_includes [] t = (t = [])"
| "js_includes (c # cs) t = (prefix t (c # cs) \<or> js_includes cs t)"

text \<open>\<^verbatim>\<open>text.split(/\W+/)\<close>: the pieces between maximal runs of non-word characters
  (a run at either end leaves an empty piece there).\<close>

function split_W :: "string \<Rightarrow> string \<Rightarrow> string list" where
  "split_W cur [] = [cur]"
| "split_W cur (c # cs) =
     (if is_word_char c then split_W (cur @ [c]) cs
      else cur # split_W [] (dropWhile (\<lambda>d. \<not> is_word_char d) cs))"
  by pat_completeness auto
termination
  by (relation "measure (\<lambda>(cur, s). length s)")
     (auto simp: length_dropWhile_le le_imp_less_Suc)

text \<open>\<^verbatim>\<open>list.join(' ')\<close>.\<close>

fun join_space :: "string list \<Rightarrow> string" where
  "join_space [] = []"
| "join_space [s] = s"
| "join_space (s # t # ss) = s @ '' '' @ join_space (t # ss)"

subsection \<open>Log entries\<close>

datatype js_error = TypeError | SyntaxError

datatype js_date = ValidDate int | InvalidDate

text \<open>The level of an entry is a string, except that \<^verbatim>\<open>normalizeLogLevel\<close> looks the
  level up in an object literal and so returns an inherited member of
  \<^verbatim>\<open>Object.prototype\<close> for the keys \<^verbatim>\<open>constructor\<close> and \<^verbatim>\<open>__proto__\<close>: \<open>LObj k\<close>.
  The property \<^verbatim>\<open>id\<close> of an entry is the field \<open>entry_id\<close>.\<close>

datatype level_val = LStr string | LObj string

record log_entry =
  entry_id :: string
  level :: level_val
  message :: string
  timestamp :: js_date
  sourceFile :: string
  lineNumber :: nat
  raw :: string
  isStructured :: bool

text \<open>\<^verbatim>\<open>String(v)\<close> of the two inherited members (as V8 prints them).\<close>

definition object_text :: "string \<Rightarrow> string" where
  "object_text k =
     (if k = ''constructor'' then ''function Object() { [native code] }''
      else ''[object Object]'')"

fun level_text :: "level_val \<Rightarrow> string" where
  "level_text (LStr s) = s"
| "level_text (LObj k) = object_text k"

subsection \<open>The search engine: indexing\<close>

record engine =
  entries :: "log_entry list"
  indexedTerms :: "(string \<times> nat list) list"
  lastIndexTime :: "int option"

text \<open>The constructor.\<close>

definition new_engine :: engine where
  "new_engine = \<lparr>entries = [], indexedTerms = [], lastIndexTime = None\<rparr>"

definition getSearchableText :: "log_entry \<Rightarrow> string" where
  "getSearchableText entry =
     toLowerCase (join_space [message entry, level_text (level entry), sourceFile entry, raw entry])"

definition extractTerms :: "string \<Rightarrow> string list" where
  "extractTerms text = map toLowerCase (filter (\<lambda>term. length term \<ge> 2) (split_W [] text))"

text \<open>\<^verbatim>\<open>set.add(i)\<close> on an insertion-ordered set.\<close>

definition set_add :: "nat list \<Rightarrow> nat \<Rightarrow> nat list" where
  "set_add s i = (if i \<in> set s then s else s @ [i])"

text \<open>The body of the \<^verbatim>\<open>terms.forEach\<close> of \<^verbatim>\<open>indexEntry\<close>: create the term's set when
  the map lacks the term, then add the index to it.\<close>

definition add_term :: "nat \<Rightarrow> (string \<times> nat list) list \<Rightarrow> string \<Rightarrow> (string \<times> nat list) list" where
  "add_term index m term =
     (let m' = (if map_of m term = None then m @ [(term, [])] else m)
      in map (\<lambda>(k, s). if k = term then (k, set_add s index) else (k, s)) m')"

definition indexEntry :: "(string \<times> nat list) list \<Rightarrow> log_entry \<Rightarrow> nat \<Rightarrow> (string \<times> nat list) list" where
  "indexEntry m entry index = foldl (add_term index) m (extractTerms (getSearchableText entry))"

text \<open>\<^verbatim>\<open>indexEntries\<close>: copy the entries, clear the map, index every entry under its
  position, stamp the time (\<open>now\<close> is \<^verbatim>\<open>new Date()\<close>).\<close>

definition indexEntries :: "int \<Rightarrow> log_entry list \<Rightarrow> engine \<Rightarrow> engine" where
  "indexEntries now es st =
     \<lparr>entries = es,
      indexedTerms = foldl (\<lambda>m (index, entry). indexEntry m entry index) [] (enumerate 0 es),
      lastIndexTime = Some now\<rparr>"

definition clearIndex :: "engine \<Rightarrow> engine" where
  "clearIndex st = \<lparr>entries = [], indexedTerms = [], lastIndexTime = None\<rparr>"

subsection \<open>The search engine: text search\<close>

definition add_all :: "nat list \<Rightarrow> nat list \<Rightarrow> nat list" where
  "add_all matching indices = foldl set_add matching indices"

text \<open>The two steps that \<^verbatim>\<open>performTextSearch\<close> takes for one query term: the exact
  match adds the positions indexed under the term; the partial match walks the map in
  insertion order and adds the positions of every indexed term that includes it.\<close>

definition partial_step :: "string \<Rightarrow> nat list \<Rightarrow> string \<times> nat list \<Rightarrow> nat list" where
  "partial_step term matching p =
     (case p of (indexedTerm, indices) \<Rightarrow>
        if js_includes indexedTerm term then add_all matching indices else matching)"

definition term_step :: "(string \<times> nat list) list \<Rightarrow> nat list \<Rightarrow> string \<Rightarrow> nat list" where
  "term_step index matching term =
     foldl (partial_step term)
       (case map_of index term of
          Some indices \<Rightarrow> add_all matching indices
        | None \<Rightarrow> matching)
       index"

text \<open>\<^verbatim>\<open>performTextSearch\<close>: no query term selects every position; otherwise the terms
  are taken in turn.\<close>

definition performTextSearch :: "engine \<Rightarrow> string \<Rightarrow> nat list" where
  "performTextSearch st query =
     (let queryTerms = extractTerms (toLowerCase query)
      in if queryTerms = [] then [0..<length (entries st)]
         else foldl (term_step (indexedTerms st)) [] queryTerms)"

subsection \<open>The search engine: filters\<close>

text \<open>A filter option that is absent, \<^verbatim>\<open>null\<close> or the empty string is falsy. For the two
  dates, \<open>None\<close> is a falsy option and \<open>Some d\<close> a truthy one with
  \<open>d = new Date(option)\<close>.\<close>

record filters =
  f_level :: "string option"
  f_startDate :: "js_date option"
  f_endDate :: "js_date option"

definition truthy_string :: "string option \<Rightarrow> bool" where
  "truthy_string v = (case v of None \<Rightarrow> False | Some s \<Rightarrow> s \<noteq> [])"

text \<open>\<^verbatim>\<open>a < b\<close> on two dates compares the time values; a comparison with NaN is false.\<close>

fun date_less :: "js_date \<Rightarrow> js_date \<Rightarrow> bool" where
  "date_less (ValidDate a) (ValidDate b) = (a < b)"
| "date_less _ _ = False"

text \<open>The callback of \<^verbatim>\<open>entries.filter\<close>. An element can be \<^verbatim>\<open>undefined\<close> (\<open>None\<close>: a
  position outside the entries); reading a property of it throws.\<close>

fun keep_entry :: "filters \<Rightarrow> log_entry option \<Rightarrow> js_error + bool" where
  "keep_entry f None =
     (if truthy_string (f_level f) \<or> f_startDate f \<noteq> None \<or> f_endDate f \<noteq> None
      then Inl TypeError else Inr True)"
| "keep_entry f (Some entry) =
     (if truthy_string (f_level f) \<and> level entry \<noteq> LStr (the (f_level f)) then Inr False
      else if (case f_startDate f of None \<Rightarrow> False
               | Some startDate \<Rightarrow> date_less (timestamp entry) startDate) then Inr False
      else if (case f_endDate f of None \<Rightarrow> False
               | Some endDate \<Rightarrow> date_less endDate (timestamp entry)) then Inr False
      else Inr True)"

fun applyFilters :: "log_entry option list \<Rightarrow> filters \<Rightarrow> js_error + log_entry option list" where
  "applyFilters [] f = Inr []"
| "applyFilters (x # xs) f =
     (case keep_entry f x of
        Inl err \<Rightarrow> Inl err
      | Inr keep \<Rightarrow>
          (case applyFilters xs f of
             Inl err \<Rightarrow> Inl err
           | Inr ys \<Rightarrow> Inr (if keep then x # ys else ys)))"

subsection \<open>The search engine: sorting\<close>

text \<open>What the host gives: the collation behind \<^verbatim>\<open>localeCompare\<close>, the text of a date,
  and the order in which its \<^verbatim>\<open>sort\<close> leaves the elements when the comparator is not
  consistent. ECMAScript calls that order implementation-defined; a sorting algorithm
  sees only the results of the comparisons, so the order is a function of the table of
  these results (row \<open>i\<close>, column \<open>j\<close>: the comparator on the elements at \<open>i\<close> and
  \<open>j\<close>) that gives each position its rank.\<close>

record host =
  collate :: "string \<Rightarrow> string \<Rightarrow> int"
  dateString :: "js_date \<Rightarrow> string"
  implementation_order :: "int option list list \<Rightarrow> nat \<Rightarrow> nat"

text \<open>\<^verbatim>\<open>a.localeCompare(b)\<close>: zero on equal strings, the host's collation otherwise.\<close>

definition localeCompare :: "host \<Rightarrow> string \<Rightarrow> string \<Rightarrow> int" where
  "localeCompare h a b = (if a = b then 0 else collate h a b)"

text \<open>The values an entry's property can have. \<open>VOther t\<close> is any other value
  (\<^verbatim>\<open>undefined\<close>, an inherited member), kept as its text \<^verbatim>\<open>String(v)\<close>.\<close>

datatype js_value = VDate js_date | VStr string | VNum int | VBool bool | VOther string

function show_nat :: "nat \<Rightarrow> string" where
  "show_nat n =
     (if n < 10 then [char_of (48 + n)]
      else show_nat (n div 10) @ [char_of (48 + n mod 10)])"
  by pat_completeness auto
termination
  by (relation "measure (\<lambda>n. n)") auto

definition show_int :: "int \<Rightarrow> string" where
  "show_int i = (if i < 0 then ''-'' @ show_nat (nat (- i)) else show_nat (nat i))"

definition to_String :: "host \<Rightarrow> js_value \<Rightarrow> string" where
  "to_String h v =
     (case v of
        VDate d \<Rightarrow> dateString h d
      | VStr s \<Rightarrow> s
      | VNum n \<Rightarrow> show_int n
      | VBool b \<Rightarrow> (if b then ''true'' else ''false'')
      | VOther t \<Rightarrow> t)"

text \<open>\<^verbatim>\<open>String(entry[name])\<close> for a name that is no property of the entry itself: a member
  of \<^verbatim>\<open>Object.prototype\<close>, or \<^verbatim>\<open>undefined\<close>.\<close>

definition absent_text :: "string \<Rightarrow> string" where
  "absent_text name =
     (if name = ''constructor'' \<or> name = ''__proto__'' then object_text name
      else if name \<in> set [''hasOwnProperty'', ''isPrototypeOf'', ''propertyIsEnumerable'',
                ''toLocaleString'', ''toString'', ''valueOf'', ''__defineGetter__'',
                ''__defineSetter__'', ''__lookupGetter__'', ''__lookupSetter__'']
      then ''function '' @ name @ ''() { [native code] }''
      else ''undefined'')"

text \<open>\<^verbatim>\<open>entry[sortBy]\<close>.\<close>

definition field_value :: "log_entry \<Rightarrow> string \<Rightarrow> js_value" where
  "field_value e name =
     (if name = ''id'' then VStr (entry_id e)
      else if name = ''level'' then (case level e of LStr s \<Rightarrow> VStr s | LObj k \<Rightarrow> VOther (object_text k))
      else if name = ''message'' then VStr (message e)
      else if name = ''timestamp'' then VDate (timestamp e)
      else if name = ''sourceFile'' then VStr (sourceFile e)
      else if name = ''lineNumber'' then VNum (int (lineNumber e))
      else if name = ''raw'' then VStr (raw e)
      else if name = ''isStructured'' then VBool (isStructured e)
      else VOther (absent_text name))"

text \<open>The comparator of \<^verbatim>\<open>sortResults\<close> on two values; \<open>None\<close> is NaN, the difference
  of two time values of which one is that of an invalid date.\<close>

fun compare_values :: "host \<Rightarrow> int \<Rightarrow> js_value \<Rightarrow> js_value \<Rightarrow> int option" where
  "compare_values h multiplier (VDate (ValidDate a)) (VDate (ValidDate b)) =
     Some ((a - b) * multiplier)"
| "compare_values h multiplier (VDate a) (VDate b) = None"
| "compare_values h multiplier (VStr a) (VStr b) = Some (localeCompare h a b * multiplier)"
| "compare_values h multiplier (VNum a) (VNum b) = Some ((a - b) * multiplier)"
| "compare_values h multiplier a b =
     Some (localeCompare h (to_String h a) (to_String h b) * multiplier)"

definition comparator :: "host \<Rightarrow> string \<Rightarrow> int \<Rightarrow> log_entry \<Rightarrow> log_entry \<Rightarrow> int option" where
  "comparator h sortBy multiplier a b =
     compare_values h multiplier (field_value a sortBy) (field_value b sortBy)"

text \<open>A consistent comparator for the elements of an array, as ECMAScript defines it:
  every comparison gives a number that is not NaN; an element equals itself; equality
  is symmetric and transitive; less and greater are transitive.\<close>

definition cf_eq :: "('a \<Rightarrow> 'a \<Rightarrow> int option) \<Rightarrow> 'a \<Rightarrow> 'a \<Rightarrow> bool" where
  "cf_eq cmp a b = (cmp a b = Some 0)"

definition cf_less :: "('a \<Rightarrow> 'a \<Rightarrow> int option) \<Rightarrow> 'a \<Rightarrow> 'a \<Rightarrow> bool" where
  "cf_less cmp a b = (case cmp a b of None \<Rightarrow> False | Some v \<Rightarrow> v < 0)"

definition cf_greater :: "('a \<Rightarrow> 'a \<Rightarrow> int option) \<Rightarrow> 'a \<Rightarrow> 'a \<Rightarrow> bool" where
  "cf_greater cmp a b = (case cmp a b of None \<Rightarrow> False | Some v \<Rightarrow> 0 < v)"

definition consistent :: "('a \<Rightarrow> 'a \<Rightarrow> int option) \<Rightarrow> 'a list \<Rightarrow> bool" where
  "consistent cmp xs =
     list_all (\<lambda>a.
       cf_eq cmp a a
       \<and> list_all (\<lambda>b.
            cmp a b \<noteq> None
            \<and> (cf_eq cmp a b \<longrightarrow> cf_eq cmp b a)
            \<and> list_all (\<lambda>c.
                 (cf_eq cmp a b \<and> cf_eq cmp b c \<longrightarrow> cf_eq cmp a c)
                 \<and> (cf_less cmp a b \<and> cf_less cmp b c \<longrightarrow> cf_less cmp a c)
                 \<and> (cf_greater cmp a b \<and> cf_greater cmp b c \<longrightarrow> cf_greater cmp a c)) xs) xs) xs"

text \<open>The number that \<^verbatim>\<open>sort\<close> reads from the comparator: NaN counts as 0.\<close>

definition sort_compare :: "('a \<Rightarrow> 'a \<Rightarrow> int option) \<Rightarrow> 'a \<Rightarrow> 'a \<Rightarrow> int" where
  "sort_compare cmp a b = (case cmp a b of None \<Rightarrow> 0 | Some v \<Rightarrow> v)"

fun insert_by :: "('a \<Rightarrow> 'a \<Rightarrow> int) \<Rightarrow> 'a \<Rightarrow> 'a list \<Rightarrow> 'a list" where
  "insert_by cmp x [] = [x]"
| "insert_by cmp x (y # ys) = (if cmp x y \<le> 0 then x # y # ys else y # insert_by cmp x ys)"

text \<open>\<^verbatim>\<open>Array.prototype.sort\<close> with a comparator, as ECMAScript 2019 and later define it.
  For a consistent comparator it is the stable sort, \<open>a\<close> before \<open>b\<close> when the
  comparator is not positive on them. For any other comparator the result is the
  elements in the host's order: each position gets the rank that the host reads from
  the table of comparisons, and the elements are arranged by rank.\<close>

definition comparisons :: "('a \<Rightarrow> 'a \<Rightarrow> int option) \<Rightarrow> 'a list \<Rightarrow> int option list list" where
  "comparisons cmp xs = map (\<lambda>a. map (cmp a) xs) xs"

definition js_sort :: "host \<Rightarrow> ('a \<Rightarrow> 'a \<Rightarrow> int option) \<Rightarrow> 'a list \<Rightarrow> 'a list" where
  "js_sort h cmp xs =
     (if consistent cmp xs then foldr (insert_by (sort_compare cmp)) xs []
      else map snd
             (sort_key (\<lambda>p. implementation_order h (comparisons cmp xs) (fst p))
                (enumerate 0 xs)))"

text \<open>\<^verbatim>\<open>sortResults\<close>. \<^verbatim>\<open>undefined\<close> elements are never compared and go to the end.\<close>

definition sortResults :: "host \<Rightarrow> log_entry option list \<Rightarrow> string \<Rightarrow> string \<Rightarrow> log_entry option list" where
  "sortResults h es sortBy sortOrder =
     (let multiplier = (if sortOrder = ''desc'' then - 1 else 1)
      in map Some
           (js_sort h (comparator h sortBy multiplier) (map the (filter (\<lambda>x. x \<noteq> None) es)))
         @ filter (\<lambda>x. x = None) es)"

subsection \<open>The search engine: pagination and \<^verbatim>\<open>search\<close>\<close>

record options =
  opt_level :: "string option"
  opt_startDate :: "js_date option"
  opt_endDate :: "js_date option"
  opt_sourceFile :: "string option"
  opt_page :: int
  opt_pageSize :: int
  opt_sortBy :: string
  opt_sortOrder :: string

text \<open>The defaults of the destructuring in \<^verbatim>\<open>search\<close>.\<close>

definition default_options :: options where
  "default_options =
     \<lparr>opt_level = None, opt_startDate = None, opt_endDate = None, opt_sourceFile = None,
      opt_page = 1, opt_pageSize = 100, opt_sortBy = ''timestamp'', opt_sortOrder = ''desc''\<rparr>"

text \<open>A number that can be an integer, \<^verbatim>\<open>Infinity\<close> or \<^verbatim>\<open>NaN\<close>.\<close>

datatype js_number = Num int | Infinity | NaN

text \<open>\<^verbatim>\<open>Math.ceil(totalCount / pageSize)\<close> for a count that is not negative.\<close>

definition ceil_div :: "int \<Rightarrow> int \<Rightarrow> js_number" where
  "ceil_div totalCount pageSize =
     (if pageSize = 0 then (if totalCount = 0 then NaN else Infinity)
      else Num (- ((- totalCount) div pageSize)))"

fun less_number :: "int \<Rightarrow> js_number \<Rightarrow> bool" where
  "less_number p (Num t) = (p < t)"
| "less_number p Infinity = True"
| "less_number p NaN = False"

text \<open>\<^verbatim>\<open>xs.slice(start, end)\<close>: a negative bound counts from the end, both bounds are
  clamped to the array.\<close>

definition js_slice :: "'a list \<Rightarrow> int \<Rightarrow> int \<Rightarrow> 'a list" where
  "js_slice xs start end' =
     (let len = int (length xs);
          k = (if start < 0 then max (len + start) 0 else min start len);
          final = (if end' < 0 then max (len + end') 0 else min end' len)
      in take (nat (final - k)) (drop (nat k) xs))"

record pagination_info =
  currentPage :: int
  totalPages :: js_number
  totalCount :: int
  pageSize :: int
  hasNextPage :: bool
  hasPreviousPage :: bool

record search_meta =
  query :: string
  searchTime :: "int option"
  resultsFound :: int

record search_result =
  result_entries :: "log_entry option list"
  pagination :: pagination_info
  searchMeta :: search_meta

text \<open>\<^verbatim>\<open>this.entries[index]\<close>: \<^verbatim>\<open>undefined\<close> outside the array.\<close>

definition entry_at :: "log_entry list \<Rightarrow> nat \<Rightarrow> log_entry option" where
  "entry_at es index = (if index < length es then Some (es ! index) else None)"

text \<open>The candidates of a query: the entries themselves when the query is empty or
  blank, the entries at the positions found by the text search otherwise.\<close>

definition candidates :: "engine \<Rightarrow> string \<Rightarrow> log_entry option list" where
  "candidates st q =
     (if q \<noteq> [] \<and> trim q \<noteq> []
      then map (entry_at (entries st)) (performTextSearch st (trim q))
      else map Some (entries st))"

text \<open>\<^verbatim>\<open>search\<close>. The option \<^verbatim>\<open>sourceFile\<close> is destructured and not used: the filters
  handed to \<^verbatim>\<open>applyFilters\<close> are level, startDate and endDate.\<close>

definition search :: "host \<Rightarrow> engine \<Rightarrow> string \<Rightarrow> options \<Rightarrow> js_error + search_result" where
  "search h st q opts =
     (case applyFilters (candidates st q)
             \<lparr>f_level = opt_level opts, f_startDate = opt_startDate opts,
              f_endDate = opt_endDate opts\<rparr> of
        Inl err \<Rightarrow> Inl err
      | Inr filtered \<Rightarrow>
          (let results = sortResults h filtered (opt_sortBy opts) (opt_sortOrder opts);
               total = int (length results);
               pages = ceil_div total (opt_pageSize opts);
               startIndex = (opt_page opts - 1) * opt_pageSize opts;
               endIndex = min (startIndex + opt_pageSize opts) total
           in Inr \<lparr>result_entries = js_slice results startIndex endIndex,
                   pagination = \<lparr>currentPage = opt_page opts, totalPages = pages,
                                  totalCount = total, pageSize = opt_pageSize opts,
                                  hasNextPage = less_number (opt_page opts) pages,
                                  hasPreviousPage = (opt_page opts > 1)\<rparr>,
                   searchMeta = \<lparr>query = q, searchTime = lastIndexTime st,
                                  resultsFound = total\<rparr>\<rparr>))"

subsection \<open>The log parser\<close>

text \<open>The value \<^verbatim>\<open>JSON.parse\<close> returns. An object is the list of its own properties,
  each name once. Of a number the parser reads only whether it is zero; the integers
  stand for all finite numbers.\<close>

datatype json = JNull | JBool bool | JNum int | JStr string | JArr "json list"
  | JObj "(string \<times> json) list"

text \<open>What the parser takes from the platform: \<^verbatim>\<open>JSON.parse\<close> (\<open>None\<close>: it throws),
  the \<^verbatim>\<open>Date\<close> constructor on a string, the \<^verbatim>\<open>Date\<close> constructor and \<^verbatim>\<open>parseInt\<close> on
  any other parsed value, and the clock of \<^verbatim>\<open>new Date()\<close>. On a value that is no string
  the constructor and \<^verbatim>\<open>parseInt\<close> convert it to a primitive first, which throws a
  \<^verbatim>\<open>TypeError\<close> for an object without a callable \<^verbatim>\<open>toString\<close> (as the record
  \<^verbatim>\<open>{"toString":1}\<close> is): \<open>Inl\<close>. For \<^verbatim>\<open>parseInt\<close>, \<open>Inr None\<close> is NaN.\<close>

record parser_env =
  JSON_parse :: "string \<Rightarrow> json option"
  Date_of_string :: "string \<Rightarrow> js_date"
  Date_of_value :: "json \<Rightarrow> js_error + js_date"
  parseInt :: "json \<Rightarrow> js_error + int option"
  current_time :: int

text \<open>\<^verbatim>\<open>new Date(v)\<close> for a parsed value.\<close>

definition new_Date :: "parser_env \<Rightarrow> json \<Rightarrow> js_error + js_date" where
  "new_Date env v = (case v of JStr s \<Rightarrow> Inr (Date_of_string env s) | _ \<Rightarrow> Date_of_value env v)"

text \<open>\<^verbatim>\<open>parsed.name\<close> for one of the names \<^verbatim>\<open>level\<close>, \<^verbatim>\<open>message\<close>, \<^verbatim>\<open>timestamp\<close>, which
  no prototype defines: the object's own property or \<^verbatim>\<open>undefined\<close> (\<open>None\<close>); reading a
  property of \<^verbatim>\<open>null\<close> throws.\<close>

fun get_property :: "json \<Rightarrow> string \<Rightarrow> js_error + json option" where
  "get_property JNull name = Inl TypeError"
| "get_property (JObj props) name = Inr (map_of props name)"
| "get_property v name = Inr None"

fun truthy :: "json option \<Rightarrow> bool" where
  "truthy None = False"
| "truthy (Some JNull) = False"
| "truthy (Some (JBool b)) = b"
| "truthy (Some (JNum n)) = (n \<noteq> 0)"
| "truthy (Some (JStr s)) = (s \<noteq> [])"
| "truthy (Some (JArr vs)) = True"
| "truthy (Some (JObj props)) = True"

definition levelMap :: "(string \<times> string) list" where
  "levelMap = [(''err'', ''error''), (''warn'', ''warning''), (''info'', ''info''),
               (''debug'', ''debug''), (''trace'', ''debug''), (''fatal'', ''error'')]"

text \<open>\<^verbatim>\<open>normalizeLogLevel\<close>. Only a string has \<^verbatim>\<open>toLowerCase\<close>; \<^verbatim>\<open>levelMap[normalized]\<close>
  also finds the two inherited members with a lower-case name.\<close>

fun normalizeLogLevel :: "json option \<Rightarrow> js_error + level_val" where
  "normalizeLogLevel (Some (JStr s)) =
     (if s = [] then Inr (LStr ''unknown'')
      else let normalized = trim (toLowerCase s)
           in Inr (case map_of levelMap normalized of
                     Some l \<Rightarrow> LStr l
                   | None \<Rightarrow>
                       if normalized = ''constructor'' \<or> normalized = ''__proto__''
                       then LObj normalized else LStr normalized))"
| "normalizeLogLevel v = (if truthy v then Inl TypeError else Inr (LStr ''unknown''))"

text \<open>\<^verbatim>\<open>message.replace(/\u001b\[\d+m/g, '')\<close>.\<close>

function strip_ansi :: "string \<Rightarrow> string" where
  "strip_ansi [] = []"
| "strip_ansi (c # cs) =
     (if c = CHR 0x1B \<and> cs \<noteq> [] \<and> hd cs = CHR ''[''
         \<and> takeWhile is_digit (tl cs) \<noteq> []
         \<and> dropWhile is_digit (tl cs) \<noteq> [] \<and> hd (dropWhile is_digit (tl cs)) = CHR ''m''
      then strip_ansi (tl (dropWhile is_digit (tl cs)))
      else c # strip_ansi cs)"
  by pat_completeness auto
termination
proof (relation "measure length")
  fix c :: char and cs :: string
  have "length (tl (dropWhile is_digit (tl cs))) \<le> length (dropWhile is_digit (tl cs))"
    by simp
  also have "\<dots> \<le> length (tl cs)"
    by (rule length_dropWhile_le)
  also have "\<dots> \<le> length cs"
    by simp
  finally show "(tl (dropWhile is_digit (tl cs)), c # cs) \<in> measure length"
    by simp
qed simp_all

fun cleanMessage :: "json option \<Rightarrow> js_error + string" where
  "cleanMessage (Some (JStr s)) = Inr (if s = [] then [] else trim (strip_ansi s))"
| "cleanMessage v = (if truthy v then Inl TypeError else Inr [])"

text \<open>A time value beyond 8.64e15 ms gives the invalid date.\<close>

definition time_clip :: "int \<Rightarrow> js_date" where
  "time_clip ms = (if \<bar>ms\<bar> \<le> 8640000000000000 then ValidDate ms else InvalidDate)"

definition parseTimestamp :: "parser_env \<Rightarrow> json option \<Rightarrow> js_error + js_date" where
  "parseTimestamp env v =
     (if \<not> truthy v then Inr (ValidDate (current_time env))
      else case new_Date env (the v) of
             Inl err \<Rightarrow> Inl err
           | Inr (ValidDate t) \<Rightarrow> Inr (ValidDate t)
           | Inr InvalidDate \<Rightarrow>
               (case parseInt env (the v) of
                  Inl err \<Rightarrow> Inl err
                | Inr (Some unixTime) \<Rightarrow> Inr (time_clip (unixTime * 1000))
                | Inr None \<Rightarrow> Inr (ValidDate (current_time env))))"

definition inferLogLevel :: "string \<Rightarrow> string \<Rightarrow> string" where
  "inferLogLevel line filePath =
     (if js_includes filePath ''error'' then ''error''
      else if js_includes filePath ''debug'' then ''debug''
      else let lowerLine = toLowerCase line
           in if js_includes lowerLine ''error'' \<or> js_includes lowerLine ''err'' then ''error''
              else if js_includes lowerLine ''warn'' then ''warning''
              else if js_includes lowerLine ''info'' then ''info''
              else if js_includes lowerLine ''debug'' then ''debug''
              else ''unknown'')"

text \<open>The two patterns of \<^verbatim>\<open>inferTimestamp\<close>, as sequences of atoms: a digit or a given
  character.\<close>

datatype atom = Digit | Lit char

fun match_atoms :: "atom list \<Rightarrow> string \<Rightarrow> bool" where
  "match_atoms [] s = True"
| "match_atoms (a # as) [] = False"
| "match_atoms (Digit # as) (c # cs) = (is_digit c \<and> match_atoms as cs)"
| "match_atoms (Lit d # as) (c # cs) = (c = d \<and> match_atoms as cs)"

definition date_time_atoms :: "char \<Rightarrow> atom list" where
  "date_time_atoms sep =
     [Digit, Digit, Digit, Digit, Lit CHR ''-'', Digit, Digit, Lit CHR ''-'', Digit, Digit,
      Lit sep, Digit, Digit, Lit CHR '':'', Digit, Digit, Lit CHR '':'', Digit, Digit]"

text \<open>\<^verbatim>\<open>/\d{4}-\d{2}-\d{2}T\d{2}:\d{2}:\d{2}(?:\.\d{3})?Z?/\<close> at the start of \<open>s\<close>.\<close>

definition match_iso :: "string \<Rightarrow> string option" where
  "match_iso s =
     (if match_atoms (date_time_atoms CHR ''T'') s
      then let n1 = (if match_atoms [Lit CHR ''.'', Digit, Digit, Digit] (drop 19 s) then 4 else 0);
               n2 = (if match_atoms [Lit CHR ''Z''] (drop (19 + n1) s) then 1 else 0)
           in Some (take (19 + n1 + n2) s)
      else None)"

text \<open>\<^verbatim>\<open>/\d{4}-\d{2}-\d{2} \d{2}:\d{2}:\d{2}/\<close> at the start of \<open>s\<close>.\<close>

definition match_simple :: "string \<Rightarrow> string option" where
  "match_simple s = (if match_atoms (date_time_atoms CHR '' '') s then Some (take 19 s) else None)"

text \<open>\<^verbatim>\<open>line.match(re)\<close>: the leftmost match.\<close>

fun first_match :: "(string \<Rightarrow> string option) \<Rightarrow> string \<Rightarrow> string option" where
  "first_match m [] = m []"
| "first_match m (c # cs) = (case m (c # cs) of Some r \<Rightarrow> Some r | None \<Rightarrow> first_match m cs)"

definition inferTimestamp :: "parser_env \<Rightarrow> string \<Rightarrow> js_date" where
  "inferTimestamp env line =
     (let iso = (case first_match match_iso line of
                   None \<Rightarrow> InvalidDate | Some m \<Rightarrow> Date_of_string env m)
      in case iso of
           ValidDate t \<Rightarrow> ValidDate t
         | InvalidDate \<Rightarrow>
             (let simple = (case first_match match_simple line of
                              None \<Rightarrow> InvalidDate | Some m \<Rightarrow> Date_of_string env m)
              in case simple of
                   ValidDate t \<Rightarrow> ValidDate t
                 | InvalidDate \<Rightarrow> ValidDate (current_time env)))"

text \<open>\<^verbatim>\<open>filePath.split('/').pop()\<close>: what follows the last slash.\<close>

definition last_segment :: "string \<Rightarrow> string" where
  "last_segment filePath = rev (takeWhile (\<lambda>c. c \<noteq> CHR ''/'') (rev filePath))"

definition generateEntryId :: "string \<Rightarrow> nat \<Rightarrow> string" where
  "generateEntryId filePath lineNumber' =
     (let filename = (if last_segment filePath = [] then filePath else last_segment filePath)
      in filename @ '':'' @ show_nat lineNumber')"

definition createFallbackEntry :: "parser_env \<Rightarrow> string \<Rightarrow> string \<Rightarrow> nat \<Rightarrow> log_entry" where
  "createFallbackEntry env line filePath lineNumber' =
     \<lparr>entry_id = generateEntryId filePath lineNumber',
      level = LStr (inferLogLevel line filePath),
      message = trim line,
      timestamp = inferTimestamp env line,
      sourceFile = filePath,
      lineNumber = lineNumber',
      raw = line,
      isStructured = False\<rparr>"

text \<open>The \<^verbatim>\<open>try\<close> block of \<^verbatim>\<open>parseLogLine\<close>; \<open>Inl\<close> is what it throws.\<close>

definition parseLogLine_try :: "parser_env \<Rightarrow> string \<Rightarrow> string \<Rightarrow> nat \<Rightarrow> js_error + log_entry" where
  "parseLogLine_try env line filePath lineNumber' =
     (case JSON_parse env line of
        None \<Rightarrow> Inl SyntaxError
      | Some parsed \<Rightarrow>
          (case get_property parsed ''level'' of
             Inl err \<Rightarrow> Inl err
           | Inr lv \<Rightarrow>
               if \<not> truthy lv \<or> \<not> truthy (projr (get_property parsed ''message''))
                  \<or> \<not> truthy (projr (get_property parsed ''timestamp''))
               then Inr (createFallbackEntry env line filePath lineNumber')
               else (case normalizeLogLevel lv of
                       Inl err \<Rightarrow> Inl err
                     | Inr l \<Rightarrow>
                         (case cleanMessage (projr (get_property parsed ''message'')) of
                            Inl err \<Rightarrow> Inl err
                          | Inr m \<Rightarrow>
                              (case parseTimestamp env
                                      (projr (get_property parsed ''timestamp'')) of
                                 Inl err \<Rightarrow> Inl err
                               | Inr t \<Rightarrow>
                                   Inr \<lparr>entry_id = generateEntryId filePath lineNumber',
                                        level = l,
                                        message = m,
                                        timestamp = t,
                                        sourceFile = filePath,
                                        lineNumber = lineNumber',
                                        raw = line,
                                        isStructured = True\<rparr>)))))"

text \<open>\<^verbatim>\<open>parseLogLine\<close>: the \<^verbatim>\<open>catch\<close> turns whatever the block throws into the fallback
  entry. The result is declared \<^verbatim>\<open>Object|null\<close>; \<open>None\<close> is \<^verbatim>\<open>null\<close>.\<close>

definition parseLogLine :: "parser_env \<Rightarrow> string \<Rightarrow> string \<Rightarrow> nat \<Rightarrow> log_entry option" where
  "parseLogLine env line filePath lineNumber' =
     (case parseLogLine_try env line filePath lineNumber' of
        Inl err \<Rightarrow> Some (createFallbackEntry env line filePath lineNumber')
      | Inr entry \<Rightarrow> Some entry)"

text \<open>\<^verbatim>\<open>s.split('\n')\<close>.\<close>

fun split_lines :: "string \<Rightarrow> string list" where
  "split_lines [] = [[]]"
| "split_lines (c # cs) =
     (let rest = split_lines cs
      in if c = CHR 0x0A then [] # rest else (c # hd rest) # tl rest)"

text \<open>The \<^verbatim>\<open>for\<close> loop of \<^verbatim>\<open>parseLogContent\<close>, from index \<open>i\<close> with the entries pushed so
  far.\<close>

function parse_loop :: "parser_env \<Rightarrow> string list \<Rightarrow> string \<Rightarrow> nat \<Rightarrow> log_entry list \<Rightarrow> log_entry list" where
  "parse_loop env lines filePath i acc =
     (if i < length lines
      then parse_loop env lines filePath (i + 1)
             (case parseLogLine env (lines ! i) filePath (i + 1) of
                None \<Rightarrow> acc
              | Some entry \<Rightarrow> acc @ [entry])
      else acc)"
  by pat_completeness auto
termination
  by (relation "measure (\<lambda>(env, lines, filePath, i, acc). length lines - i)") auto

definition parseLogContent :: "parser_env \<Rightarrow> string \<Rightarrow> string \<Rightarrow> log_entry list" where
  "parseLogContent env fileContent filePath =
     (if fileContent = [] then []
      else parse_loop env (filter (\<lambda>line. trim line \<noteq> []) (split_lines fileContent)) filePath 0 [])"

subsection \<open>Loading the logs\<close>

text \<open>\<^verbatim>\<open>loadLogs\<close>, given the files of the scan in its order, each with its path and the
  text read from it (\<open>None\<close> when reading throws: the file is skipped).\<close>

definition loadLogs_entries :: "parser_env \<Rightarrow> (string \<times> string option) list \<Rightarrow> log_entry list" where
  "loadLogs_entries env files =
     foldl (\<lambda>allEntries (path, content).
              case content of
                None \<Rightarrow> allEntries
              | Some text \<Rightarrow> allEntries @ parseLogContent env text path)
       [] files"

definition loadLogs :: "parser_env \<Rightarrow> int \<Rightarrow> (string \<times> string option) list \<Rightarrow> engine \<Rightarrow> engine" where
  "loadLogs env now files st = indexEntries now (loadLogs_entries env files) st"

subsection \<open>Vocabulary of the properties\<close>

text \<open>Every position recorded in the index is a position of the entries array.\<close>

definition index_in_bounds :: "engine \<Rightarrow> bool" where
  "index_in_bounds st =
     (\<forall>(term, indices) \<in> set (indexedTerms st). \<forall>i \<in> set indices. i < length (entries st))"

text \<open>The calls that change an engine, and a sequence of them run on a new engine.\<close>

datatype engine_op = IndexEntries int "log_entry list" | ClearIndex

fun apply_op :: "engine \<Rightarrow> engine_op \<Rightarrow> engine" where
  "apply_op st (IndexEntries now es) = indexEntries now es st"
| "apply_op st ClearIndex = clearIndex st"

definition run_ops :: "engine_op list \<Rightarrow> engine" where
  "run_ops ops = foldl apply_op new_engine ops"

text \<open>The filters that \<^verbatim>\<open>search\<close> hands to \<^verbatim>\<open>applyFilters\<close>.\<close>

definition filters_of :: "options \<Rightarrow> filters" where
  "filters_of opts =
     \<lparr>f_level = opt_level opts, f_startDate = opt_startDate opts, f_endDate = opt_endDate opts\<rparr>"

text \<open>The entry lists of the pages 1 to \<open>n\<close> of one query (an error would count as an
  empty page; the theorems below show that there is none).\<close>

definition pages_upto :: "host \<Rightarrow> engine \<Rightarrow> string \<Rightarrow> options \<Rightarrow> int \<Rightarrow> log_entry option list list" where
  "pages_upto h st q opts n =
     map (\<lambda>p. case search h st q (opts\<lparr>opt_page := p\<rparr>) of
                 Inl err \<Rightarrow> []
               | Inr r \<Rightarrow> result_entries r)
       [1..n]"

text \<open>The text search as the specification words it: the positions indexed under a
  token itself, or under an indexed token that contains it; for several tokens, the
  positions matched by any of them.\<close>

definition token_matches :: "(string \<times> nat list) list \<Rightarrow> string \<Rightarrow> nat set" where
  "token_matches index token =
     set (concat (map snd (filter (\<lambda>(indexed, indices). indexed = token) index)))
     \<union> set (concat (map snd (filter (\<lambda>(indexed, indices). js_includes indexed token) index)))"

definition spec_matches :: "engine \<Rightarrow> string \<Rightarrow> nat set" where
  "spec_matches st q =
     (\<Union>token \<in> set (extractTerms (toLowerCase q)). token_matches (indexedTerms st) token)"


text \<open>The entries that \<^verbatim>\<open>sort\<close> compares, and the comparator of \<^verbatim>\<open>sortResults\<close> for the
  options of a query.\<close>

definition defined_entries :: "log_entry option list \<Rightarrow> log_entry list" where
  "defined_entries es = map the (filter (\<lambda>x. x \<noteq> None) es)"

definition results_comparator :: "host \<Rightarrow> options \<Rightarrow> log_entry \<Rightarrow> log_entry \<Rightarrow> int option" where
  "results_comparator h opts =
     comparator h (opt_sortBy opts) (if opt_sortOrder opts = ''desc'' then - 1 else 1)"

text \<open>An entry (or \<^verbatim>\<open>undefined\<close>) whose sort key is \<open>v\<close>.\<close>

definition has_key :: "string \<Rightarrow> js_value \<Rightarrow> log_entry option \<Rightarrow> bool" where
  "has_key sortBy v x = (case x of None \<Rightarrow> False | Some e \<Rightarrow> field_value e sortBy = v)"

text \<open>A parsed record with a truthy level, message and timestamp.\<close>

definition has_required_fields :: "json \<Rightarrow> bool" where
  "has_required_fields parsed =
     (case get_property parsed ''level'' of
        Inl err \<Rightarrow> False
      | Inr lv \<Rightarrow> truthy lv \<and> truthy (projr (get_property parsed ''message''))
                   \<and> truthy (projr (get_property parsed ''timestamp'')))"

text \<open>The lines that \<^verbatim>\<open>parseLogContent\<close> keeps.\<close>

definition kept_lines :: "string \<Rightarrow> string list" where
  "kept_lines fileContent = filter (\<lambda>line. trim line \<noteq> []) (split_lines fileContent)"

text \<open>The level of a fallback entry, as the specification words it, from the name of
  the source file and the line: the first rule of a table that applies, the text being
  searched for the rule's substring; the rules for the name come first.\<close>

definition first_rule :: "(string \<times> string) list \<Rightarrow> string \<Rightarrow> string option" where
  "first_rule rules text = map_option snd (find (\<lambda>(part, lv). js_includes text part) rules)"

definition spec_fallback_level :: "string \<Rightarrow> string \<Rightarrow> string" where
  "spec_fallback_level name line =
     (case first_rule [(''error'', ''error''), (''debug'', ''debug'')] name of
        Some lv \<Rightarrow> lv
      | None \<Rightarrow>
          (case first_rule [(''error'', ''error''), (''err'', ''error''), (''warn'', ''warning''),
                            (''info'', ''info''), (''debug'', ''debug'')] (toLowerCase line) of
             Some lv \<Rightarrow> lv
           | None \<Rightarrow> ''unknown''))"

text \<open>All the positions that an index records.\<close>

definition positions :: "(string \<times> nat list) list \<Rightarrow> nat set" where
  "positions m = (\<Union>(k, s) \<in> set m. set s)"

subsection \<open>Concrete data for the examples\<close>

text \<open>A host that collates by code units and leaves the elements where they are when
  the comparator is not consistent.\<close>

fun compare_units :: "string \<Rightarrow> string \<Rightarrow> int" where
  "compare_units [] [] = 0"
| "compare_units [] (d # ds) = - 1"
| "compare_units (c # cs) [] = 1"
| "compare_units (c # cs) (d # ds) =
     (if code_unit c < code_unit d then - 1
      else if code_unit d < code_unit c then 1
      else compare_units cs ds)"

definition ex_host :: host where
  "ex_host =
     \<lparr>collate = compare_units,
      dateString = (\<lambda>d. case d of InvalidDate \<Rightarrow> ''Invalid Date'' | ValidDate t \<Rightarrow> show_int t),
      implementation_order = (\<lambda>table i. i)\<rparr>"

definition ex_entry1 :: log_entry where
  "ex_entry1 =
     \<lparr>entry_id = ''debug.log:1'', level = LStr ''info'', message = ''xab'',
      timestamp = ValidDate 5, sourceFile = ''/logs/debug.log'', lineNumber = 1,
      raw = ''xab'', isStructured = False\<rparr>"

definition ex_entry2 :: log_entry where
  "ex_entry2 =
     \<lparr>entry_id = ''debug.log:2'', level = LStr ''info'', message = ''ab'',
      timestamp = ValidDate 5, sourceFile = ''/logs/debug.log'', lineNumber = 2,
      raw = ''ab'', isStructured = False\<rparr>"

definition ex_entry3 :: log_entry where
  "ex_entry3 =
     \<lparr>entry_id = ''debug.log:3'', level = LStr ''info'', message = ''cd'',
      timestamp = ValidDate 9, sourceFile = ''/logs/debug.log'', lineNumber = 3,
      raw = ''cd'', isStructured = False\<rparr>"

definition ex_engine :: engine where
  "ex_engine = indexEntries 0 [ex_entry1, ex_entry2] new_engine"

text \<open>A platform on which two lines are JSON (a record, and \<^verbatim>\<open>null\<close>) and one text is a
  date.\<close>

definition ex_env :: parser_env where
  \<open>ex_env =
     \<lparr>JSON_parse =
        (\<lambda>s. if s = ''{"level":"error","message":"Database down","timestamp":"2025-01-20T10:05:00.000Z"}''
              then Some (JObj [(''level'', JStr ''error''), (''message'', JStr ''Database down''),
                               (''timestamp'', JStr ''2025-01-20T10:05:00.000Z'')])
              else if s = ''null'' then Some JNull
              else None),
      Date_of_string = (\<lambda>s. if s = ''2025-01-20T10:05:00.000Z'' then ValidDate 1737367500000
                             else InvalidDate),
      Date_of_value = (\<lambda>v. Inr InvalidDate),
      parseInt = (\<lambda>v. Inr None),
      current_time = 1737400000000\<rparr>\<close>

definition ex_entry4 :: log_entry where
  "ex_entry4 =
     \<lparr>entry_id = ''error.log:1'', level = LStr ''warn'', message = ''error'',
      timestamp = ValidDate 7, sourceFile = ''a'', lineNumber = 1,
      raw = ''error'', isStructured = False\<rparr>"

definition ex_entry5 :: log_entry where
  "ex_entry5 =
     \<lparr>entry_id = ''error.log:2'', level = LStr ''warn'', message = ''database'',
      timestamp = ValidDate 8, sourceFile = ''a'', lineNumber = 2,
      raw = ''database'', isStructured = False\<rparr>"

definition ex_ops :: "engine_op list" where
  "ex_ops = [IndexEntries 0 [ex_entry3], ClearIndex, IndexEntries 1 [ex_entry1, ex_entry2]]"

definition ex_engine2 :: engine where
  "ex_engine2 = indexEntries 0 [ex_entry4, ex_entry5, ex_entry3] new_engine"


definition ex_json_line :: string where
  \<open>ex_json_line = ''{"level":"error","message":"Database down","timestamp":"2025-01-20T10:05:00.000Z"}''\<close>

definition ex_text_line :: string where
  "ex_text_line = ''2025-01-20 10:00:00 INFO User logged in''"

definition ex_nested_path :: string where
  "ex_nested_path = ''/srv/error-tracker/logs/debug.log''"

definition ex_content :: string where
  "ex_content =
     ex_json_line @ [CHR 0x0A] @ ''   '' @ [CHR 0x0A] @ ex_text_line @ [CHR 0x0A] @ ''null''
     @ [CHR 0x0A]"

text \<open>Seven entries of which three have an invalid date, and a host whose \<^verbatim>\<open>sort\<close>, on an
  inconsistent comparison of seven elements, arranges them as first, second, sixth,
  seventh, third, fourth, fifth.\<close>

definition ex_dated :: "nat \<Rightarrow> js_date \<Rightarrow> log_entry" where
  "ex_dated n d =
     \<lparr>entry_id = ''debug.log:'' @ show_nat n, level = LStr ''info'', message = ''up'',
      timestamp = d, sourceFile = ''debug.log'', lineNumber = n, raw = ''up'',
      isStructured = False\<rparr>"

definition ex_engine7 :: engine where
  "ex_engine7 =
     indexEntries 0
       [ex_dated 1 InvalidDate, ex_dated 2 InvalidDate, ex_dated 3 (ValidDate 1),
        ex_dated 4 InvalidDate, ex_dated 5 (ValidDate 2), ex_dated 6 (ValidDate 3),
        ex_dated 7 (ValidDate 2)]
       new_engine"

definition ex_host_reordering :: host where
  "ex_host_reordering =
     ex_host\<lparr>implementation_order :=
               (\<lambda>table i. if length table = 7 then [0, 1, 4, 5, 6, 2, 3] ! i else i)\<rparr>"

section \<open>Properties\<close>

subsection \<open>The index\<close>

lemma set_set_add: "set (set_add s i) = insert i (set s)"
  by (auto simp: set_add_def)

lemma set_add_all: "set (add_all acc is) = set acc \<union> set is"
  unfolding add_all_def by (induction "is" arbitrary: acc) (auto simp: set_set_add)

lemma positions_add_term: "positions (add_term index m t) \<subseteq> insert index (positions m)"
  by (auto simp: positions_def add_term_def Let_def set_set_add split: if_splits)

lemma positions_indexEntry: "positions (indexEntry m e index) \<subseteq> insert index (positions m)"
proof -
  have "positions (foldl (add_term index) m ts) \<subseteq> insert index (positions m)" for ts
  proof (induction ts arbitrary: m)
    case Nil
    then show ?case by auto
  next
    case (Cons t ts)
    have "positions (foldl (add_term index) (add_term index m t) ts)
            \<subseteq> insert index (positions (add_term index m t))"
      by (rule Cons.IH)
    also have "\<dots> \<subseteq> insert index (positions m)"
      using positions_add_term [of index m t] by auto
    finally show ?case by simp
  qed
  then show ?thesis by (simp add: indexEntry_def)
qed

lemma positions_fold_enumerate:
  "positions (foldl (\<lambda>m (index, entry). indexEntry m entry index) m (enumerate n es))
     \<subseteq> positions m \<union> {n..<n + length es}"
proof (induction es arbitrary: m n)
  case Nil
  then show ?case by simp
next
  case (Cons e es)
  have "positions (foldl (\<lambda>m (index, entry). indexEntry m entry index) (indexEntry m e n)
          (enumerate (Suc n) es))
        \<subseteq> positions (indexEntry m e n) \<union> {Suc n..<Suc n + length es}"
    by (rule Cons.IH)
  also have "\<dots> \<subseteq> positions m \<union> {n..<n + length (e # es)}"
    using positions_indexEntry [of m e n] by auto
  finally show ?case by simp
qed

lemma index_in_bounds_positions:
  "index_in_bounds st \<longleftrightarrow> positions (indexedTerms st) \<subseteq> {0..<length (entries st)}"
  by (auto simp: index_in_bounds_def positions_def)

lemma index_in_bounds_indexEntries: "index_in_bounds (indexEntries now es st)"
  using positions_fold_enumerate [of "[]" 0 es]
  by (simp add: index_in_bounds_positions indexEntries_def positions_def)

lemma index_in_bounds_clearIndex: "index_in_bounds (clearIndex st)"
  by (simp add: index_in_bounds_def clearIndex_def)

lemma index_in_bounds_new: "index_in_bounds new_engine"
  by (simp add: index_in_bounds_def new_engine_def)

lemma index_in_bounds_apply_op: "index_in_bounds (apply_op st op)"
  by (cases op) (simp_all add: index_in_bounds_indexEntries index_in_bounds_clearIndex)

lemma index_in_bounds_run_ops: "index_in_bounds (run_ops ops)"
proof -
  have "index_in_bounds st \<Longrightarrow> index_in_bounds (foldl apply_op st ops)" for st
    by (induction ops arbitrary: st) (simp_all add: index_in_bounds_apply_op)
  then show ?thesis by (simp add: run_ops_def index_in_bounds_new)
qed

subsection \<open>Text search\<close>

lemma partial_step_pair:
  "partial_step t acc (k, s) = (if js_includes k t then add_all acc s else acc)"
  by (simp add: partial_step_def)

lemma set_fold_partial:
  "set (foldl (partial_step t) acc m)
     = set acc \<union> set (concat (map snd (filter (\<lambda>(indexed, indices). js_includes indexed t) m)))"
proof (induction m arbitrary: acc)
  case Nil
  then show ?case by simp
next
  case (Cons p m)
  obtain k s where p: "p = (k, s)" by (cases p)
  show ?case
    by (auto simp: Cons.IH p partial_step_pair set_add_all)
qed

lemma js_includes_refl: "js_includes s s"
  by (cases s) simp_all

lemma map_of_exact_subset:
  "map_of m t = Some s \<Longrightarrow> set s \<subseteq> set (concat (map snd (filter (\<lambda>(indexed, indices). indexed = t) m)))"
  by (induction m) (auto split: if_splits)

lemma exact_subset_partial:
  "set (concat (map snd (filter (\<lambda>(indexed, indices). indexed = t) m)))
     \<subseteq> set (concat (map snd (filter (\<lambda>(indexed, indices). js_includes indexed t) m)))"
  by (auto simp: js_includes_refl)

lemma set_term_step: "set (term_step m matching t) = set matching \<union> token_matches m t"
proof (cases "map_of m t")
  case None
  then show ?thesis
    using exact_subset_partial [of t m]
    by (auto simp: term_step_def set_fold_partial token_matches_def)
next
  case (Some s)
  then show ?thesis
    using exact_subset_partial [of t m] map_of_exact_subset [OF Some]
    by (auto simp: term_step_def set_fold_partial token_matches_def set_add_all)
qed

lemma fold_terms_matches:
  "set (foldl (term_step m) acc ts) = set acc \<union> (\<Union>t \<in> set ts. token_matches m t)"
  by (induction ts arbitrary: acc) (auto simp: set_term_step)

lemma performTextSearch_matches:
  "extractTerms (toLowerCase q) \<noteq> [] \<Longrightarrow> set (performTextSearch st q) = spec_matches st q"
  by (simp add: performTextSearch_def spec_matches_def fold_terms_matches Let_def)

lemma performTextSearch_all:
  "extractTerms (toLowerCase q) = [] \<Longrightarrow> performTextSearch st q = [0..<length (entries st)]"
  by (simp add: performTextSearch_def)

lemma token_matches_positions: "token_matches m t \<subseteq> positions m"
  by (auto simp: token_matches_def positions_def)

lemma performTextSearch_in_bounds:
  assumes "index_in_bounds st" "i \<in> set (performTextSearch st q)"
  shows "i < length (entries st)"
proof (cases "extractTerms (toLowerCase q) = []")
  case True
  with assms(2) show ?thesis by (simp add: performTextSearch_all)
next
  case False
  with assms(2) have "i \<in> spec_matches st q" by (simp add: performTextSearch_matches)
  then have "i \<in> positions (indexedTerms st)"
    using token_matches_positions by (auto simp: spec_matches_def)
  with assms(1) show ?thesis by (auto simp: index_in_bounds_positions)
qed

subsection \<open>Filters\<close>

lemma keep_entry_Some: "\<exists>b. keep_entry f (Some e) = Inr b"
proof -
  have "keep_entry f (Some e) = Inr True \<or> keep_entry f (Some e) = Inr False"
    by simp
  then show ?thesis by blast
qed

lemma applyFilters_defined:
  "None \<notin> set xs \<Longrightarrow> applyFilters xs f = Inr (filter (\<lambda>x. keep_entry f x = Inr True) xs)"
proof (induction xs)
  case Nil
  then show ?case by simp
next
  case (Cons x xs)
  then obtain e where x: "x = Some e" by (cases x) auto
  obtain b where b: "keep_entry f (Some e) = Inr b"
    using keep_entry_Some by blast
  from Cons have "applyFilters xs f = Inr (filter (\<lambda>x. keep_entry f x = Inr True) xs)"
    by simp
  then show ?case
    by (simp add: x b del: keep_entry.simps)
qed

lemma applyFilters_subseq: "applyFilters xs f = Inr ys \<Longrightarrow> subseq ys xs"
proof (induction xs arbitrary: ys)
  case Nil
  then show ?case by simp
next
  case (Cons x xs)
  then show ?case
    by (auto simp del: keep_entry.simps split: sum.splits if_splits)
qed

lemma applyFilters_no_filter:
  assumes "\<not> truthy_string (f_level f)" "f_startDate f = None" "f_endDate f = None"
  shows "applyFilters xs f = Inr xs"
proof (induction xs)
  case Nil
  then show ?case by simp
next
  case (Cons x xs)
  have "keep_entry f x = Inr True"
    using assms by (cases x) simp_all
  with Cons show ?case by (simp del: keep_entry.simps)
qed

lemma candidates_defined:
  assumes "index_in_bounds st"
  shows "None \<notin> set (candidates st q)"
  using assms performTextSearch_in_bounds [OF assms]
  by (auto simp: candidates_def entry_at_def)

subsection \<open>Sorting\<close>

lemma mset_insert_by: "mset (insert_by cmp x ys) = add_mset x (mset ys)"
  by (induction ys) simp_all

lemma mset_insertion_sort: "mset (foldr (insert_by cmp) xs []) = mset xs"
  by (induction xs) (simp_all add: mset_insert_by)

lemma mset_arranged: "mset (map snd (sort_key f (enumerate 0 xs))) = mset xs"
proof -
  have "mset (sort_key f (enumerate 0 xs)) = mset (enumerate 0 xs)"
    by simp
  then have "mset (map snd (sort_key f (enumerate 0 xs))) = mset (map snd (enumerate 0 xs))"
    by (metis mset_map)
  then show ?thesis by (simp only: map_snd_enumerate)
qed

lemma mset_js_sort: "mset (js_sort h cmp xs) = mset xs"
  by (cases "consistent cmp xs")
    (simp_all only: js_sort_def if_True if_False mset_insertion_sort mset_arranged)

lemma length_js_sort: "length (js_sort h cmp xs) = length xs"
  using mset_js_sort [of h cmp xs] by (metis size_mset)

lemma map_Some_the: "None \<notin> set xs \<Longrightarrow> map Some (map the xs) = xs"
  by (induction xs) auto

lemma sortResults_unfold:
  "\<exists>cmp. sortResults h es sortBy sortOrder
           = map Some (js_sort h cmp (map the (filter (\<lambda>x. x \<noteq> None) es)))
             @ filter (\<lambda>x. x = None) es"
  unfolding sortResults_def Let_def by (rule exI) (rule refl)

lemma split_defined: "mset (filter (\<lambda>x. x \<noteq> None) es) + mset (filter (\<lambda>x. x = None) es) = mset es"
  by (induction es) auto

lemma mset_sortResults: "mset (sortResults h es sortBy sortOrder) = mset es"
proof -
  obtain cmp where u: "sortResults h es sortBy sortOrder
           = map Some (js_sort h cmp (map the (filter (\<lambda>x. x \<noteq> None) es)))
             @ filter (\<lambda>x. x = None) es"
    using sortResults_unfold by blast
  let ?ys = "filter (\<lambda>x. x \<noteq> None) es"
  have eq1: "map Some (map the ?ys) = ?ys"
    by (rule map_Some_the) simp
  have "image_mset Some (mset (js_sort h cmp (map the ?ys))) = image_mset Some (mset (map the ?ys))"
    by (simp only: mset_js_sort)
  then have "mset (map Some (js_sort h cmp (map the ?ys))) = mset (map Some (map the ?ys))"
    by (simp only: mset_map)
  then have "mset (map Some (js_sort h cmp (map the ?ys))) = mset ?ys"
    by (simp only: eq1)
  then have "mset (sortResults h es sortBy sortOrder) = mset ?ys + mset (filter (\<lambda>x. x = None) es)"
    by (simp only: u mset_append)
  then show ?thesis by (simp only: split_defined)
qed

lemma length_sortResults: "length (sortResults h es sortBy sortOrder) = length es"
  using mset_sortResults [of h es sortBy sortOrder] by (metis size_mset)

lemma set_sortResults: "set (sortResults h es sortBy sortOrder) = set es"
  using mset_sortResults [of h es sortBy sortOrder] by (metis set_mset_mset)

subsection \<open>Slicing into pages\<close>

lemma js_slice_nonneg:
  assumes "0 \<le> s" "0 \<le> ps"
  shows "js_slice xs s (min (s + ps) (int (length xs))) = take (nat ps) (drop (nat s) xs)"
proof (cases "s \<le> int (length xs)")
  case True
  have "js_slice xs s (min (s + ps) (int (length xs)))
          = take (nat (min (s + ps) (int (length xs)) - s)) (drop (nat s) xs)"
    using assms True by (simp add: js_slice_def Let_def min_def)
  also have "\<dots> = take (nat ps) (drop (nat s) xs)"
  proof (cases "s + ps \<le> int (length xs)")
    case True
    then show ?thesis by (simp add: min_def)
  next
    case False
    then have "length (drop (nat s) xs) \<le> nat ps" "min (s + ps) (int (length xs)) = int (length xs)"
      using assms by auto
    moreover have "nat (int (length xs) - s) = length (drop (nat s) xs)"
      using assms True by auto
    ultimately show ?thesis by simp
  qed
  finally show ?thesis .
next
  case False
  then show ?thesis
    using assms by (simp add: js_slice_def Let_def min_def)
qed

lemma js_slice_page:
  assumes "1 \<le> ps" "1 \<le> p"
  shows "js_slice xs ((p - 1) * ps) (min ((p - 1) * ps + ps) (int (length xs)))
           = take (nat ps) (drop (nat ((p - 1) * ps)) xs)"
proof -
  have "0 \<le> (p - 1) * ps" using assms by simp
  then show ?thesis using assms by (intro js_slice_nonneg) simp_all
qed


lemma concat_pages:
  "concat (map (\<lambda>i. take m (drop (i * m) xs)) [0..<k]) = take (k * m) xs"
proof (induction k)
  case 0
  then show ?case by simp
next
  case (Suc k)
  have "take (k * m) xs @ take m (drop (k * m) xs) = take (k * m + m) xs"
    by (simp add: take_add)
  with Suc show ?case by (simp add: add.commute)
qed

lemma upto_as_nat: "[1..int k] = map (\<lambda>i. int (Suc i)) [0..<k]"
proof (induction k)
  case 0
  then show ?case by simp
next
  case (Suc k)
  have "[1..int (Suc k)] = [1..int k] @ [int (Suc k)]"
    using upto_rec2 [of 1 "int (Suc k)"] by simp
  with Suc show ?case by simp
qed

lemma ceil_bounds:
  fixes ps t :: int
  assumes "1 \<le> ps" "0 \<le> t"
  shows "t \<le> (- ((- t) div ps)) * ps" "(- ((- t) div ps) - 1) * ps < t" "0 \<le> - ((- t) div ps)"
proof -
  let ?n = "- ((- t) div ps)"
  have ps0: "0 < ps" using assms by simp
  have "(- t) div ps * ps = - t - (- t) mod ps"
    by (simp add: minus_mod_eq_div_mult)
  then have eq: "?n * ps = t + (- t) mod ps" by simp
  have m: "0 \<le> (- t) mod ps" "(- t) mod ps < ps" using ps0 by simp_all
  show "t \<le> ?n * ps" using eq m by linarith
  have "(?n - 1) * ps = ?n * ps - ps" by (simp add: algebra_simps)
  then show "(?n - 1) * ps < t" using eq m by linarith
  have "(- t) div ps \<le> 0"
    using assms ps0 by (simp add: div_nonpos_pos_le0)
  then show "0 \<le> ?n" by simp
qed

subsection \<open>Search\<close>

lemma search_unfold:
  assumes "applyFilters (candidates st q) (filters_of opts) = Inr filtered"
  shows "search h st q opts =
     Inr \<lparr>result_entries =
            js_slice (sortResults h filtered (opt_sortBy opts) (opt_sortOrder opts))
              ((opt_page opts - 1) * opt_pageSize opts)
              (min ((opt_page opts - 1) * opt_pageSize opts + opt_pageSize opts)
                 (int (length (sortResults h filtered (opt_sortBy opts) (opt_sortOrder opts))))),
          pagination =
            \<lparr>currentPage = opt_page opts,
             totalPages = ceil_div (int (length filtered)) (opt_pageSize opts),
             totalCount = int (length filtered), pageSize = opt_pageSize opts,
             hasNextPage = less_number (opt_page opts)
                             (ceil_div (int (length filtered)) (opt_pageSize opts)),
             hasPreviousPage = (opt_page opts > 1)\<rparr>,
          searchMeta = \<lparr>query = q, searchTime = lastIndexTime st,
                         resultsFound = int (length filtered)\<rparr>\<rparr>"
  using assms by (simp add: search_def filters_of_def Let_def length_sortResults)

lemma filters_of_page [simp]: "filters_of (opts\<lparr>opt_page := p\<rparr>) = filters_of opts"
  by (simp add: filters_of_def)

lemma search_page:
  assumes "applyFilters (candidates st q) (filters_of opts) = Inr filtered"
    and "1 \<le> opt_pageSize opts" and "1 \<le> p"
  shows "\<exists>r. search h st q (opts\<lparr>opt_page := p\<rparr>) = Inr r
     \<and> result_entries r =
         take (nat (opt_pageSize opts))
           (drop (nat ((p - 1) * opt_pageSize opts))
              (sortResults h filtered (opt_sortBy opts) (opt_sortOrder opts)))
     \<and> totalCount (pagination r) = int (length filtered)
     \<and> totalPages (pagination r) = Num (- ((- int (length filtered)) div opt_pageSize opts))
     \<and> currentPage (pagination r) = p"
proof -
  have f: "applyFilters (candidates st q) (filters_of (opts\<lparr>opt_page := p\<rparr>)) = Inr filtered"
    using assms(1) by simp
  have ps: "opt_pageSize opts \<noteq> 0" using assms(2) by simp
  show ?thesis
    using assms(2,3) ps
    by (simp add: search_unfold [OF f] js_slice_page ceil_div_def)
qed

lemma pages_upto_eq:
  assumes "applyFilters (candidates st q) (filters_of opts) = Inr filtered"
    and "1 \<le> opt_pageSize opts"
  shows "pages_upto h st q opts (int k)
           = map (\<lambda>i. take (nat (opt_pageSize opts))
                        (drop (i * nat (opt_pageSize opts))
                           (sortResults h filtered (opt_sortBy opts) (opt_sortOrder opts))))
               [0..<k]"
proof -
  have "(case search h st q (opts\<lparr>opt_page := int (Suc i)\<rparr>) of Inl err \<Rightarrow> [] | Inr r \<Rightarrow> result_entries r)
          = take (nat (opt_pageSize opts))
              (drop (i * nat (opt_pageSize opts))
                 (sortResults h filtered (opt_sortBy opts) (opt_sortOrder opts)))" for i
  proof -
    obtain r where r: "search h st q (opts\<lparr>opt_page := int (Suc i)\<rparr>) = Inr r"
      "result_entries r =
         take (nat (opt_pageSize opts))
           (drop (nat ((int (Suc i) - 1) * opt_pageSize opts))
              (sortResults h filtered (opt_sortBy opts) (opt_sortOrder opts)))"
      using search_page [OF assms, of "int (Suc i)" h] by auto
    have "nat ((int (Suc i) - 1) * opt_pageSize opts) = i * nat (opt_pageSize opts)"
      using assms(2) by (simp add: nat_mult_distrib)
    with r show ?thesis by simp
  qed
  then show ?thesis
    by (simp add: pages_upto_def upto_as_nat comp_def)
qed

lemma concat_pages_upto:
  assumes "applyFilters (candidates st q) (filters_of opts) = Inr filtered"
    and "1 \<le> opt_pageSize opts"
  shows "concat (pages_upto h st q opts (- ((- int (length filtered)) div opt_pageSize opts)))
           = sortResults h filtered (opt_sortBy opts) (opt_sortOrder opts)"
proof -
  let ?ps = "opt_pageSize opts"
  let ?n = "- ((- int (length filtered)) div ?ps)"
  let ?sorted = "sortResults h filtered (opt_sortBy opts) (opt_sortOrder opts)"
  have n0: "0 \<le> ?n" and cover: "int (length filtered) \<le> ?n * ?ps"
    using ceil_bounds [OF assms(2), of "int (length filtered)"] by simp_all
  have n: "?n = int (nat ?n)" using n0 by simp
  have "int (length ?sorted) \<le> int (nat ?n * nat ?ps)"
    using cover n0 assms(2) by (simp add: length_sortResults nat_mult_distrib [symmetric])
  then have le: "length ?sorted \<le> nat ?n * nat ?ps" by linarith
  have "concat (pages_upto h st q opts (int (nat ?n))) = take (nat ?n * nat ?ps) ?sorted"
    by (simp only: pages_upto_eq [OF assms] concat_pages)
  also have "\<dots> = ?sorted" using le by simp
  finally show ?thesis using n by simp
qed

lemma ceiling_pages:
  fixes ps :: int
  shows "- ((- int t) div ps) = \<lceil>real t / real_of_int ps\<rceil>"
proof -
  have "\<lceil>real_of_int (int t) / real_of_int ps\<rceil> = - (- int t div ps)"
    by (rule ceiling_divide_eq_div)
  then show ?thesis by simp
qed

subsection \<open>The example engine, evaluated\<close>

lemma ex_index:
  "indexedTerms ex_engine = [(''xab'', [0]), (''info'', [0, 1]), (''logs'', [0, 1]), (''debug'', [0, 1]), (''log'', [0, 1]), (''ab'', [1])]"
  by code_simp

lemma ex_search_ab: "performTextSearch ex_engine ''ab'' = [1, 0]"
  by code_simp

lemma ex_candidates_ab: "candidates ex_engine ''ab'' = [Some ex_entry2, Some ex_entry1]"
  by code_simp

subsection \<open>Pagination\<close>

text \<open>
  Claim C2 (pagination invariant). For every indexed entry list \<open>E\<close>, every query and
  filters, and every page size of at least 1: the filters return a list \<open>filtered\<close>
  without error; every page \<open>p \<ge> 1\<close> is answered without error and reports
  \<open>totalCount = length filtered\<close> and \<open>totalPages = \<lceil>totalCount / pageSize\<rceil>\<close>; the
  lengths of the pages 1 to \<open>totalPages\<close> add up to \<open>totalCount\<close>; and a page beyond
  \<open>totalPages\<close> has no entries, with the same two counts.
\<close>

theorem pagination_invariant:
  assumes "1 \<le> opt_pageSize opts"
  shows "\<exists>filtered n.
      applyFilters (candidates (indexEntries now E st0) q) (filters_of opts) = Inr filtered
    \<and> n = \<lceil>real (length filtered) / real_of_int (opt_pageSize opts)\<rceil>
    \<and> sum_list (map length (pages_upto h (indexEntries now E st0) q opts n)) = length filtered
    \<and> (\<forall>p\<ge>1. \<exists>r. search h (indexEntries now E st0) q (opts\<lparr>opt_page := p\<rparr>) = Inr r
            \<and> totalCount (pagination r) = int (length filtered)
            \<and> totalPages (pagination r) = Num n
            \<and> (n < p \<longrightarrow> result_entries r = []))"
proof -
  let ?st = "indexEntries now E st0"
  let ?ps = "opt_pageSize opts"
  have "None \<notin> set (candidates ?st q)"
    by (rule candidates_defined) (rule index_in_bounds_indexEntries)
  then obtain filtered where f: "applyFilters (candidates ?st q) (filters_of opts) = Inr filtered"
    using applyFilters_defined by blast
  let ?n = "- ((- int (length filtered)) div ?ps)"
  let ?sorted = "sortResults h filtered (opt_sortBy opts) (opt_sortOrder opts)"
  have n: "?n = \<lceil>real (length filtered) / real_of_int ?ps\<rceil>"
    by (rule ceiling_pages)
  have "length (concat (pages_upto h ?st q opts ?n)) = length filtered"
    by (simp only: concat_pages_upto [OF f assms] length_sortResults)
  then have total: "sum_list (map length (pages_upto h ?st q opts ?n)) = length filtered"
    by (simp only: length_concat)
  have pages: "\<exists>r. search h ?st q (opts\<lparr>opt_page := p\<rparr>) = Inr r
            \<and> totalCount (pagination r) = int (length filtered)
            \<and> totalPages (pagination r) = Num ?n
            \<and> (?n < p \<longrightarrow> result_entries r = [])" if p: "1 \<le> p" for p
  proof -
    obtain r where r: "search h ?st q (opts\<lparr>opt_page := p\<rparr>) = Inr r"
      "result_entries r = take (nat ?ps) (drop (nat ((p - 1) * ?ps)) ?sorted)"
      "totalCount (pagination r) = int (length filtered)"
      "totalPages (pagination r) = Num ?n"
      using search_page [OF f assms p, of h] by auto
    have "result_entries r = []" if beyond: "?n < p"
    proof -
      have "?n * ?ps \<le> (p - 1) * ?ps"
        using beyond assms by (intro mult_right_mono) simp_all
      then have "int (length ?sorted) \<le> (p - 1) * ?ps"
        using ceil_bounds(1) [OF assms, of "int (length filtered)"]
        by (simp add: length_sortResults)
      then have "length ?sorted \<le> nat ((p - 1) * ?ps)" by linarith
      then show ?thesis by (simp add: r(2))
    qed
    with r show ?thesis by blast
  qed
  let ?c = "\<lceil>real (length filtered) / real_of_int ?ps\<rceil>"
  have total': "sum_list (map length (pages_upto h ?st q opts ?c)) = length filtered"
    using total by (simp only: n)
  have pages': "\<forall>p\<ge>1. \<exists>r. search h ?st q (opts\<lparr>opt_page := p\<rparr>) = Inr r
            \<and> totalCount (pagination r) = int (length filtered)
            \<and> totalPages (pagination r) = Num ?c
            \<and> (?c < p \<longrightarrow> result_entries r = [])"
    using pages by (simp only: n) blast
  show ?thesis
    by (rule exI [of _ filtered], rule exI [of _ ?c]) (use f total' pages' in blast)
qed

theorem pagination_invariant_witness:
  "1 \<le> opt_pageSize (default_options\<lparr>opt_pageSize := 1\<rparr>)
   \<and> (\<exists>r. search ex_host ex_engine ''ab'' (default_options\<lparr>opt_pageSize := 1, opt_page := 3\<rparr>) = Inr r
          \<and> totalCount (pagination r) = 2 \<and> totalPages (pagination r) = Num 2
          \<and> result_entries r = [])"
proof -
  let ?opts = "default_options\<lparr>opt_pageSize := 1\<rparr>"
  have h: "1 \<le> opt_pageSize ?opts" by simp
  have ev: "applyFilters (candidates ex_engine ''ab'') (filters_of ?opts)
              = Inr [Some ex_entry2, Some ex_entry1]"
    by (simp add: ex_candidates_ab filters_of_def default_options_def truthy_string_def)
  obtain filtered n where
    f: "applyFilters (candidates ex_engine ''ab'') (filters_of ?opts) = Inr filtered"
    and n: "n = \<lceil>real (length filtered) / real_of_int (opt_pageSize ?opts)\<rceil>"
    and p: "\<forall>p\<ge>1. \<exists>r. search ex_host ex_engine ''ab'' (?opts\<lparr>opt_page := p\<rparr>) = Inr r
            \<and> totalCount (pagination r) = int (length filtered)
            \<and> totalPages (pagination r) = Num n
            \<and> (n < p \<longrightarrow> result_entries r = [])"
    using pagination_invariant [OF h, of 0 "[ex_entry1, ex_entry2]" new_engine "''ab''" ex_host]
    unfolding ex_engine_def by blast
  from f ev have "filtered = [Some ex_entry2, Some ex_entry1]" by simp
  then have len: "length filtered = 2" by simp
  with n have n2: "n = 2" by simp
  from p have "\<exists>r. search ex_host ex_engine ''ab'' (?opts\<lparr>opt_page := 3\<rparr>) = Inr r
            \<and> totalCount (pagination r) = int (length filtered)
            \<and> totalPages (pagination r) = Num n
            \<and> (n < 3 \<longrightarrow> result_entries r = [])"
    by simp
  with len n2 h show ?thesis by simp
qed

subsection \<open>Round trip\<close>

lemma entries_indexEntries [simp]: "entries (indexEntries now E st0) = E"
  by (simp add: indexEntries_def)

lemma candidates_blank: "trim q = [] \<Longrightarrow> candidates st q = map Some (entries st)"
  by (simp add: candidates_def)

text \<open>
  Claim C1 (round trip through indexing and querying). For every entry list \<open>E\<close>, after
  \<^verbatim>\<open>indexEntries(E)\<close>, a search with an empty or blank query, without level, start date
  or end date filter and with a page size of at least 1, answers every page without
  error, reports \<open>length E\<close> entries on \<open>\<lceil>length E / pageSize\<rceil>\<close> pages, and the
  entries of these pages together are exactly the entries of \<open>E\<close>, as a multiset.
\<close>

theorem empty_query_round_trip:
  assumes "trim q = []"
    and "\<not> truthy_string (opt_level opts)"
    and "opt_startDate opts = None" and "opt_endDate opts = None"
    and "1 \<le> opt_pageSize opts"
  shows "\<exists>n. n = \<lceil>real (length E) / real_of_int (opt_pageSize opts)\<rceil>
     \<and> mset (concat (pages_upto h (indexEntries now E st0) q opts n)) = mset (map Some E)
     \<and> (\<forall>p\<ge>1. \<exists>r. search h (indexEntries now E st0) q (opts\<lparr>opt_page := p\<rparr>) = Inr r
             \<and> totalPages (pagination r) = Num n
             \<and> totalCount (pagination r) = int (length E))"
proof -
  let ?st = "indexEntries now E st0"
  let ?ps = "opt_pageSize opts"
  let ?n = "- ((- int (length (map Some E))) div ?ps)"
  have c: "candidates ?st q = map Some E"
    using assms(1) by (simp add: candidates_blank)
  have f: "applyFilters (candidates ?st q) (filters_of opts) = Inr (map Some E)"
    unfolding c using assms(2-4) by (intro applyFilters_no_filter) (simp_all add: filters_of_def)
  have n: "?n = \<lceil>real (length E) / real_of_int ?ps\<rceil>"
    using ceiling_pages [of "length E" ?ps] by simp
  have "concat (pages_upto h ?st q opts ?n)
          = sortResults h (map Some E) (opt_sortBy opts) (opt_sortOrder opts)"
    by (rule concat_pages_upto [OF f assms(5)])
  then have m: "mset (concat (pages_upto h ?st q opts ?n)) = mset (map Some E)"
    by (simp only: mset_sortResults)
  have pages: "\<exists>r. search h ?st q (opts\<lparr>opt_page := p\<rparr>) = Inr r
             \<and> totalPages (pagination r) = Num ?n
             \<and> totalCount (pagination r) = int (length E)" if "1 \<le> p" for p
    using search_page [OF f assms(5) that, of h] by auto
  let ?c = "\<lceil>real (length E) / real_of_int ?ps\<rceil>"
  have m': "mset (concat (pages_upto h ?st q opts ?c)) = mset (map Some E)"
    using m by (simp only: n)
  have pages': "\<forall>p\<ge>1. \<exists>r. search h ?st q (opts\<lparr>opt_page := p\<rparr>) = Inr r
             \<and> totalPages (pagination r) = Num ?c
             \<and> totalCount (pagination r) = int (length E)"
    using pages by (simp only: n) blast
  show ?thesis
    by (rule exI [of _ ?c]) (use m' pages' in blast)
qed

theorem empty_query_round_trip_witness:
  "trim ''  '' = [] \<and> \<not> truthy_string (opt_level default_options)
   \<and> opt_startDate default_options = None \<and> opt_endDate default_options = None
   \<and> 1 \<le> opt_pageSize default_options
   \<and> mset (concat (pages_upto ex_host ex_engine ''  '' default_options 1))
       = mset [Some ex_entry1, Some ex_entry2]"
proof -
  have h1: "trim ''  '' = []" by code_simp
  have h2: "\<not> truthy_string (opt_level default_options)"
    by (simp add: default_options_def truthy_string_def)
  have h3: "opt_startDate default_options = None" "opt_endDate default_options = None"
    by (simp_all add: default_options_def)
  have h4: "1 \<le> opt_pageSize default_options" by (simp add: default_options_def)
  have "\<lceil>real (length [ex_entry1, ex_entry2]) / real_of_int (opt_pageSize default_options)\<rceil> = 1"
    unfolding ceiling_pages [symmetric] by (simp add: default_options_def)
  with empty_query_round_trip [OF h1 h2 h3 h4, of "[ex_entry1, ex_entry2]" ex_host 0 new_engine]
  have "mset (concat (pages_upto ex_host ex_engine ''  '' default_options 1))
          = mset (map Some [ex_entry1, ex_entry2])"
    unfolding ex_engine_def by auto
  with h1 h2 h3 h4 show ?thesis by simp
qed


subsection \<open>The index invariant\<close>

lemma set_js_slice: "set (js_slice xs a b) \<subseteq> set xs"
proof -
  have "set (take n (drop m xs)) \<subseteq> set xs" for n m
    using set_take_subset [of n "drop m xs"] set_drop_subset [of m xs] by blast
  then show ?thesis by (simp add: js_slice_def Let_def)
qed

lemma subseq_set_subset: "subseq xs ys \<Longrightarrow> set xs \<subseteq> set ys"
  by (induction rule: list_emb.induct) auto

lemma search_defined:
  assumes "index_in_bounds st"
  shows "\<exists>r. search h st q opts = Inr r \<and> None \<notin> set (result_entries r)"
proof -
  have c: "None \<notin> set (candidates st q)"
    by (rule candidates_defined [OF assms])
  then obtain filtered where f: "applyFilters (candidates st q) (filters_of opts) = Inr filtered"
    using applyFilters_defined by blast
  have "set filtered \<subseteq> set (candidates st q)"
    using applyFilters_subseq [OF f] by (rule subseq_set_subset)
  with c have "None \<notin> set (sortResults h filtered (opt_sortBy opts) (opt_sortOrder opts))"
    by (auto simp: set_sortResults)
  then have "None \<notin> set (js_slice (sortResults h filtered (opt_sortBy opts) (opt_sortOrder opts)) a b)" for a b
    using set_js_slice by fastforce
  then show ?thesis
    by (simp add: search_unfold [OF f])
qed

text \<open>
  Claim C10 (index positions are in bounds). After any sequence of \<^verbatim>\<open>indexEntries\<close> and
  \<^verbatim>\<open>clearIndex\<close> calls on a new engine, every position recorded in the index is a
  position of the entries array; so every position that \<^verbatim>\<open>performTextSearch\<close> returns
  is one at which the array holds an entry, and \<^verbatim>\<open>search\<close> returns a page (it does not
  throw) on which no element is \<^verbatim>\<open>undefined\<close>.
\<close>

theorem index_positions_in_bounds:
  "index_in_bounds (run_ops ops)
   \<and> (\<forall>i \<in> set (performTextSearch (run_ops ops) q).
         i < length (entries (run_ops ops))
         \<and> entry_at (entries (run_ops ops)) i = Some (entries (run_ops ops) ! i))
   \<and> (\<exists>r. search h (run_ops ops) q opts = Inr r \<and> None \<notin> set (result_entries r))"
proof -
  have b: "index_in_bounds (run_ops ops)"
    by (rule index_in_bounds_run_ops)
  have "i < length (entries (run_ops ops))
        \<and> entry_at (entries (run_ops ops)) i = Some (entries (run_ops ops) ! i)"
    if "i \<in> set (performTextSearch (run_ops ops) q)" for i
    using performTextSearch_in_bounds [OF b that] by (simp add: entry_at_def)
  with b search_defined [OF b] show ?thesis by blast
qed

theorem index_positions_in_bounds_witness:
  "0 \<in> set (performTextSearch (run_ops ex_ops) ''xab'')
   \<and> (0::nat) < length (entries (run_ops ex_ops))
   \<and> entry_at (entries (run_ops ex_ops)) 0 = Some (entries (run_ops ex_ops) ! 0)"
proof -
  have m: "0 \<in> set (performTextSearch (run_ops ex_ops) ''xab'')"
    by code_simp
  with index_positions_in_bounds [of ex_ops "''xab''" ex_host default_options]
  show ?thesis by blast
qed

subsection \<open>Text search, as specified\<close>

text \<open>
  Claim C3 (text search semantics), amended. When the query has at least one term (a
  piece of at least two word characters), the positions found are those matched by any
  of its terms, a term matching the positions indexed under the term itself or under an
  indexed term that contains it. When the query has no term, every position is found.
\<close>

theorem text_search_semantics:
  "(extractTerms (toLowerCase q) \<noteq> [] \<longrightarrow> set (performTextSearch st q) = spec_matches st q)
   \<and> (extractTerms (toLowerCase q) = [] \<longrightarrow> performTextSearch st q = [0..<length (entries st)])"
  using performTextSearch_matches [of q st] performTextSearch_all [of q st] by blast

theorem text_search_semantics_witness:
  "extractTerms (toLowerCase ''error database'') \<noteq> []
   \<and> set (performTextSearch ex_engine2 ''error database'') = {0, 1}
   \<and> spec_matches ex_engine2 ''error database'' = {0, 1}
   \<and> extractTerms (toLowerCase ''a'') = []
   \<and> performTextSearch ex_engine ''a'' = [0, 1]"
proof -
  have t: "extractTerms (toLowerCase ''error database'') \<noteq> []" by code_simp
  have s: "performTextSearch ex_engine2 ''error database'' = [0, 1]" by code_simp
  have t': "extractTerms (toLowerCase ''a'') = []" by code_simp
  have l: "length (entries ex_engine) = 2" by (simp add: ex_engine_def)
  have "[0..<2] = [0, Suc 0]" by (simp add: upt_rec)
  with text_search_semantics [of "''error database''" ex_engine2]
    text_search_semantics [of "''a''" ex_engine] t s t' l
  show ?thesis by auto
qed

text \<open>
  The claim as worded, for every non-empty query, fails on the query \<^verbatim>\<open>a\<close>: it has no
  term, so no position is matched by a term, and yet both entries are candidates.
\<close>

theorem text_search_counterexample:
  "trim ''a'' \<noteq> [] \<and> spec_matches ex_engine (trim ''a'') = {}
   \<and> candidates ex_engine ''a'' = [Some ex_entry1, Some ex_entry2]"
  by code_simp


subsection \<open>Pagination and sort parameters out of range\<close>




lemma localeCompare_refl [simp]: "localeCompare h s s = 0"
  by (simp add: localeCompare_def)







subsection \<open>Stability of the sort\<close>

lemma compare_values_refl: "compare_values h m v v = Some 0 \<or> compare_values h m v v = None"
proof (cases v)
  case (VDate d)
  then show ?thesis by (cases d) simp_all
qed simp_all

lemma sort_compare_equal_keys:
  "field_value a sortBy = field_value b sortBy \<Longrightarrow> sort_compare (comparator h sortBy m) a b = 0"
  using compare_values_refl [of h m "field_value b sortBy"]
  by (auto simp: sort_compare_def comparator_def)

lemma filter_insert_by:
  assumes "\<And>a b. key a = key b \<Longrightarrow> cmp a b = 0"
  shows "filter (\<lambda>y. key y = k) (insert_by cmp x ys)
           = (if key x = k then x # filter (\<lambda>y. key y = k) ys else filter (\<lambda>y. key y = k) ys)"
proof (induction ys)
  case Nil
  then show ?case by simp
next
  case (Cons y ys)
  show ?case
  proof (cases "cmp x y \<le> 0")
    case True
    then show ?thesis by simp
  next
    case False
    then have "key x \<noteq> key y" using assms [of x y] by auto
    with False Cons show ?thesis by auto
  qed
qed

lemma js_sort_stable:
  assumes "consistent cmp xs" and "\<And>a b. key a = key b \<Longrightarrow> sort_compare cmp a b = 0"
  shows "filter (\<lambda>y. key y = k) (js_sort h cmp xs) = filter (\<lambda>y. key y = k) xs"
proof -
  have "filter (\<lambda>y. key y = k) (foldr (insert_by (sort_compare cmp)) xs [])
          = filter (\<lambda>y. key y = k) xs"
    by (induction xs) (simp_all add: filter_insert_by [of key "sort_compare cmp", OF assms(2)])
  then show ?thesis using assms(1) by (simp add: js_sort_def)
qed

lemma filter_has_key_Some:
  "filter (has_key sortBy v) (map Some zs) = map Some (filter (\<lambda>e. field_value e sortBy = v) zs)"
  by (induction zs) (simp_all add: has_key_def)

lemma filter_has_key_defined:
  "filter (has_key sortBy v) (filter (\<lambda>x. x \<noteq> None) es) = filter (has_key sortBy v) es"
  by (induction es) (auto simp: has_key_def)

lemma filter_has_key_undefined: "filter (has_key sortBy v) (filter (\<lambda>x. x = None) es) = []"
  by (induction es) (auto simp: has_key_def)

lemma sortResults_stable:
  assumes "consistent (comparator h sortBy (if sortOrder = ''desc'' then - 1 else 1))
             (defined_entries es)"
  shows "filter (has_key sortBy v) (sortResults h es sortBy sortOrder)
           = filter (has_key sortBy v) es"
proof -
  let ?ys = "filter (\<lambda>x. x \<noteq> None) es"
  let ?cmp = "comparator h sortBy (if sortOrder = ''desc'' then - 1 else 1)"
  have eq1: "map Some (map the ?ys) = ?ys"
    by (rule map_Some_the) simp
  have c: "consistent ?cmp (map the ?ys)"
    using assms by (simp only: defined_entries_def)
  have st: "filter (\<lambda>e. field_value e sortBy = v) (js_sort h ?cmp (map the ?ys))
              = filter (\<lambda>e. field_value e sortBy = v) (map the ?ys)"
    using c by (rule js_sort_stable) (rule sort_compare_equal_keys)
  have "filter (has_key sortBy v) (sortResults h es sortBy sortOrder)
          = map Some (filter (\<lambda>e. field_value e sortBy = v) (js_sort h ?cmp (map the ?ys)))"
    unfolding sortResults_def Let_def
    by (simp only: filter_append filter_has_key_Some filter_has_key_undefined append_Nil2)
  also have "\<dots> = map Some (filter (\<lambda>e. field_value e sortBy = v) (map the ?ys))"
    by (simp only: st)
  also have "\<dots> = filter (has_key sortBy v) (map Some (map the ?ys))"
    by (simp only: filter_has_key_Some)
  also have "\<dots> = filter (has_key sortBy v) es"
    by (simp only: eq1 filter_has_key_defined)
  finally show ?thesis .
qed

text \<open>The default sort is consistent when every date is valid.\<close>

lemma consistent_valid_dates:
  assumes "\<forall>e \<in> set xs. timestamp e \<noteq> InvalidDate" and "m = 1 \<or> m = - 1"
  shows "consistent (comparator h ''timestamp'' m) xs"
proof -
  have cmp: "comparator h ''timestamp'' m a b
               = Some (((case timestamp a of ValidDate t \<Rightarrow> t | InvalidDate \<Rightarrow> 0)
                         - (case timestamp b of ValidDate t \<Rightarrow> t | InvalidDate \<Rightarrow> 0)) * m)"
    if "a \<in> set xs" "b \<in> set xs" for a b
    using that assms(1)
    by (cases "timestamp a"; cases "timestamp b") (auto simp: comparator_def field_value_def)
  show ?thesis
    using assms(2)
    by (auto simp: consistent_def list_all_iff cf_eq_def cf_less_def cf_greater_def cmp
        mult_less_0_iff zero_less_mult_iff)
qed

lemma subseq_js_slice: "subseq (js_slice xs a b) xs"
proof -
  have "subseq (take n (drop m xs)) xs" for n m
  proof -
    have "subseq (take n (drop m xs)) (drop m xs)" by (rule sublist_imp_subseq) simp
    moreover have "subseq (drop m xs) xs" by (rule sublist_imp_subseq) simp
    ultimately show ?thesis by (rule subseq_order.trans)
  qed
  then show ?thesis by (simp add: js_slice_def Let_def)
qed

lemma search_Inr_filtered:
  assumes "search h st q opts = Inr r"
  obtains filtered where "applyFilters (candidates st q) (filters_of opts) = Inr filtered"
proof (cases "applyFilters (candidates st q) (filters_of opts)")
  case (Inl err)
  with assms show ?thesis by (simp add: search_def filters_of_def)
next
  case (Inr filtered)
  then show ?thesis by (rule that)
qed

text \<open>
  Claim C8 (sort stability), amended. For every sort field and order whose comparator is
  consistent on the filtered results (as the default one is when every timestamp is a
  valid date), the entries of a result page that have the same sort-key value stand in
  the order in which the candidates of the query hold them. For an empty or blank query
  the candidates are the snapshot, so ties keep the snapshot order; for a query with
  text they are in the order in which the text search found them. When the comparator
  is not consistent (an invalid date under the default sort gives NaN) the order is the
  host's, and nothing is said of it.
\<close>

theorem sort_stability:
  assumes "applyFilters (candidates st q) (filters_of opts) = Inr filtered"
    and "consistent (results_comparator h opts) (defined_entries filtered)"
  shows "\<exists>r. search h st q opts = Inr r
       \<and> subseq (filter (has_key (opt_sortBy opts) v) (result_entries r))
           (filter (has_key (opt_sortBy opts) v) (candidates st q))
       \<and> (trim q = [] \<longrightarrow>
            subseq (filter (has_key (opt_sortBy opts) v) (result_entries r))
              (filter (has_key (opt_sortBy opts) v) (map Some (entries st))))"
proof -
  let ?K = "has_key (opt_sortBy opts) v"
  let ?sorted = "sortResults h filtered (opt_sortBy opts) (opt_sortOrder opts)"
  obtain r where s: "search h st q opts = Inr r"
    and r: "result_entries r =
      js_slice ?sorted ((opt_page opts - 1) * opt_pageSize opts)
        (min ((opt_page opts - 1) * opt_pageSize opts + opt_pageSize opts) (int (length ?sorted)))"
    by (simp add: search_unfold [OF assms(1)])
  have "subseq (filter ?K (result_entries r)) (filter ?K ?sorted)"
    unfolding r by (rule subseq_filter) (rule subseq_js_slice)
  also have "filter ?K ?sorted = filter ?K filtered"
    using assms(2) unfolding results_comparator_def by (rule sortResults_stable)
  finally have 1: "subseq (filter ?K (result_entries r)) (filter ?K filtered)" .
  have 2: "subseq (filter ?K filtered) (filter ?K (candidates st q))"
    by (rule subseq_filter) (rule applyFilters_subseq [OF assms(1)])
  from 1 2 have "subseq (filter ?K (result_entries r)) (filter ?K (candidates st q))"
    by (rule subseq_order.trans)
  with s show ?thesis by (auto simp: candidates_blank)
qed

lemma ex_search_ab_page:
  "search ex_host ex_engine ''ab'' default_options =
     Inr \<lparr>result_entries = [Some ex_entry2, Some ex_entry1],
          pagination = \<lparr>currentPage = 1, totalPages = Num 1, totalCount = 2, pageSize = 100,
                         hasNextPage = False, hasPreviousPage = False\<rparr>,
          searchMeta = \<lparr>query = ''ab'', searchTime = Some 0, resultsFound = 2\<rparr>\<rparr>"
  by code_simp

theorem sort_stability_witness:
  "applyFilters (candidates ex_engine ''ab'') (filters_of default_options)
     = Inr [Some ex_entry2, Some ex_entry1]
   \<and> consistent (results_comparator ex_host default_options)
       (defined_entries [Some ex_entry2, Some ex_entry1])
   \<and> search ex_host ex_engine ''ab'' default_options =
     Inr \<lparr>result_entries = [Some ex_entry2, Some ex_entry1],
          pagination = \<lparr>currentPage = 1, totalPages = Num 1, totalCount = 2, pageSize = 100,
                         hasNextPage = False, hasPreviousPage = False\<rparr>,
          searchMeta = \<lparr>query = ''ab'', searchTime = Some 0, resultsFound = 2\<rparr>\<rparr>
   \<and> filter (has_key ''timestamp'' (VDate (ValidDate 5))) [Some ex_entry2, Some ex_entry1]
       = [Some ex_entry2, Some ex_entry1]
   \<and> subseq [Some ex_entry2, Some ex_entry1]
        (filter (has_key ''timestamp'' (VDate (ValidDate 5))) (candidates ex_engine ''ab''))"
proof -
  have f: "applyFilters (candidates ex_engine ''ab'') (filters_of default_options)
             = Inr [Some ex_entry2, Some ex_entry1]"
    by (simp add: ex_candidates_ab filters_of_def default_options_def truthy_string_def)
  have c: "consistent (results_comparator ex_host default_options)
             (defined_entries [Some ex_entry2, Some ex_entry1])"
    by code_simp
  have k: "filter (has_key ''timestamp'' (VDate (ValidDate 5))) [Some ex_entry2, Some ex_entry1]
       = [Some ex_entry2, Some ex_entry1]"
    by code_simp
  have s: "opt_sortBy default_options = ''timestamp''"
    by (simp add: default_options_def)
  from sort_stability [OF f c, of "VDate (ValidDate 5)"] f c k s ex_search_ab_page
  show ?thesis by simp
qed

text \<open>
  The claim as worded, ties in snapshot order, fails for a query with text: the two
  entries have the same timestamp, the snapshot holds the first before the second, and
  the page for the query \<^verbatim>\<open>ab\<close> holds the second before the first (the exact match of
  \<^verbatim>\<open>ab\<close> is added before the partial match \<^verbatim>\<open>xab\<close>).
\<close>

theorem sort_stability_counterexample:
  "entries ex_engine = [ex_entry1, ex_entry2]
   \<and> field_value ex_entry1 ''timestamp'' = field_value ex_entry2 ''timestamp''
   \<and> search ex_host ex_engine ''ab'' (default_options\<lparr>opt_sortBy := ''timestamp''\<rparr>) =
     Inr \<lparr>result_entries = [Some ex_entry2, Some ex_entry1],
          pagination = \<lparr>currentPage = 1, totalPages = Num 1, totalCount = 2, pageSize = 100,
                         hasNextPage = False, hasPreviousPage = False\<rparr>,
          searchMeta = \<lparr>query = ''ab'', searchTime = Some 0, resultsFound = 2\<rparr>\<rparr>"
  by code_simp

text \<open>
  Why the comparator has to be consistent: with an invalid date among the timestamps
  the default comparator gives NaN, and a host is free to arrange the results as in
  this example, where the blank query returns the fifth and the seventh entry, which
  have the same timestamp, in the opposite order.
\<close>

lemma invalid_date_ties_reordered:
  "consistent (results_comparator ex_host_reordering default_options) (entries ex_engine7) = False
   \<and> map (map_option lineNumber)
         (result_entries (projr (search ex_host_reordering ex_engine7 [] default_options)))
       = [Some 1, Some 2, Some 6, Some 7, Some 3, Some 4, Some 5]
   \<and> timestamp (entries ex_engine7 ! 4) = timestamp (entries ex_engine7 ! 6)"
  by code_simp

subsection \<open>The source file option\<close>

lemma search_ignores_sourceFile: "search h st q (opts\<lparr>opt_sourceFile := v\<rparr>) = search h st q opts"
  by (simp add: search_def cong: sum.case_cong)

text \<open>
  Claim C4 (the sourceFile filter): the code does not do what the claim says. With the
  option \<^verbatim>\<open>sourceFile: 'error'\<close> the page still holds the entries of
  \<^verbatim>\<open>/logs/debug.log\<close>, whose source file does not contain \<^verbatim>\<open>error\<close>.
\<close>

theorem sourceFile_filter_not_applied:
  "search ex_host ex_engine [] (default_options\<lparr>opt_sourceFile := Some ''error''\<rparr>) =
     Inr \<lparr>result_entries = [Some ex_entry1, Some ex_entry2],
          pagination = \<lparr>currentPage = 1, totalPages = Num 1, totalCount = 2, pageSize = 100,
                         hasNextPage = False, hasPreviousPage = False\<rparr>,
          searchMeta = \<lparr>query = [], searchTime = Some 0, resultsFound = 2\<rparr>\<rparr>
   \<and> sourceFile ex_entry1 = ''/logs/debug.log''
   \<and> js_includes (sourceFile ex_entry1) ''error'' = False"
  by code_simp

subsection \<open>The parser\<close>

lemma parseLogLine_Some:
  "\<exists>e. parseLogLine env line filePath n = Some e \<and> raw e = line \<and> lineNumber e = n
        \<and> sourceFile e = filePath \<and> entry_id e = generateEntryId filePath n
        \<and> (isStructured e \<or> e = createFallbackEntry env line filePath n)"
  by (auto simp: parseLogLine_def parseLogLine_try_def createFallbackEntry_def
      split: sum.splits option.splits)

lemma parseLogLine_fallback:
  assumes "case JSON_parse env line of None \<Rightarrow> True | Some parsed \<Rightarrow> \<not> has_required_fields parsed"
  shows "parseLogLine env line filePath n = Some (createFallbackEntry env line filePath n)"
  using assms
  by (auto simp: parseLogLine_def parseLogLine_try_def has_required_fields_def
      split: sum.splits option.splits)

lemma parse_loop_eq:
  "parse_loop env lines filePath i acc
     = acc @ map (\<lambda>j. the (parseLogLine env (lines ! j) filePath (j + 1))) [i..<length lines]"
proof (induction env lines filePath i acc rule: parse_loop.induct)
  case (1 env lines filePath i acc)
  show ?case
  proof (cases "i < length lines")
    case True
    obtain e where e: "parseLogLine env (lines ! i) filePath (i + 1) = Some e"
      using parseLogLine_Some by blast
    have "[i..<length lines] = i # [i + 1..<length lines]"
      using True by (simp add: upt_conv_Cons)
    with True e "1.IH" [OF True] show ?thesis
      by (simp del: parse_loop.simps add: parse_loop.simps [of env lines filePath i acc])
  next
    case False
    then show ?thesis by simp
  qed
qed

lemma kept_lines_empty: "kept_lines [] = []"
  by (simp add: kept_lines_def trim_def)

lemma parseLogContent_eq:
  "parseLogContent env fileContent filePath
     = map (\<lambda>j. the (parseLogLine env (kept_lines fileContent ! j) filePath (j + 1)))
         [0..<length (kept_lines fileContent)]"
proof (cases "fileContent = []")
  case True
  then show ?thesis by (simp add: parseLogContent_def kept_lines_empty)
next
  case False
  then show ?thesis
    by (simp add: parseLogContent_def parse_loop_eq kept_lines_def del: parse_loop.simps)
qed

lemma trim_nonempty_fallback: "trim line \<noteq> [] \<Longrightarrow> message (createFallbackEntry env line filePath n) \<noteq> []"
  by (simp add: createFallbackEntry_def)

text \<open>
  Claim C5 (parser totality). \<^verbatim>\<open>parseLogContent\<close> returns a list for every content and
  path: whatever the \<^verbatim>\<open>try\<close> block of \<^verbatim>\<open>parseLogLine\<close> throws is caught. The lines
  that are blank after trimming are skipped, and the \<open>i\<close>-th line kept gives exactly
  the \<open>i\<close>-th entry, which \<^verbatim>\<open>parseLogLine\<close> returns for it (never \<^verbatim>\<open>null\<close>) with line
  number \<open>i + 1\<close>. The entry is structured or it is the fallback entry; it is the
  fallback entry, not structured and with a non-empty message, when \<^verbatim>\<open>JSON.parse\<close>
  fails on the line or the record lacks a truthy level, message or timestamp. Level,
  message and timestamp cannot be \<^verbatim>\<open>null\<close>: every path builds the entry from a level
  value, a string and a date.
\<close>

theorem parser_totality:
  "length (parseLogContent env fileContent filePath) = length (kept_lines fileContent)
   \<and> (\<forall>i < length (kept_lines fileContent).
        trim (kept_lines fileContent ! i) \<noteq> []
        \<and> parseLogLine env (kept_lines fileContent ! i) filePath (i + 1)
            = Some (parseLogContent env fileContent filePath ! i)
        \<and> raw (parseLogContent env fileContent filePath ! i) = kept_lines fileContent ! i
        \<and> lineNumber (parseLogContent env fileContent filePath ! i) = i + 1
        \<and> (isStructured (parseLogContent env fileContent filePath ! i)
            \<or> parseLogContent env fileContent filePath ! i
                = createFallbackEntry env (kept_lines fileContent ! i) filePath (i + 1))
        \<and> (\<forall>err. parseLogLine_try env (kept_lines fileContent ! i) filePath (i + 1) = Inl err \<longrightarrow>
               parseLogContent env fileContent filePath ! i
                 = createFallbackEntry env (kept_lines fileContent ! i) filePath (i + 1))
        \<and> ((case JSON_parse env (kept_lines fileContent ! i) of
                None \<Rightarrow> True | Some parsed \<Rightarrow> \<not> has_required_fields parsed) \<longrightarrow>
             parseLogContent env fileContent filePath ! i
               = createFallbackEntry env (kept_lines fileContent ! i) filePath (i + 1)
             \<and> \<not> isStructured (parseLogContent env fileContent filePath ! i)
             \<and> message (parseLogContent env fileContent filePath ! i) \<noteq> []))"
proof -
  let ?ls = "kept_lines fileContent"
  let ?es = "parseLogContent env fileContent filePath"
  have len: "length ?es = length ?ls"
    by (simp add: parseLogContent_eq)
  have nth: "?es ! i = the (parseLogLine env (?ls ! i) filePath (i + 1))" if "i < length ?ls" for i
    using that by (simp add: parseLogContent_eq)
  have each: "trim (?ls ! i) \<noteq> []
        \<and> parseLogLine env (?ls ! i) filePath (i + 1) = Some (?es ! i)
        \<and> raw (?es ! i) = ?ls ! i
        \<and> lineNumber (?es ! i) = i + 1
        \<and> (isStructured (?es ! i) \<or> ?es ! i = createFallbackEntry env (?ls ! i) filePath (i + 1))
        \<and> (\<forall>err. parseLogLine_try env (?ls ! i) filePath (i + 1) = Inl err \<longrightarrow>
               ?es ! i = createFallbackEntry env (?ls ! i) filePath (i + 1))
        \<and> ((case JSON_parse env (?ls ! i) of
                None \<Rightarrow> True | Some parsed \<Rightarrow> \<not> has_required_fields parsed) \<longrightarrow>
             ?es ! i = createFallbackEntry env (?ls ! i) filePath (i + 1)
             \<and> \<not> isStructured (?es ! i) \<and> message (?es ! i) \<noteq> [])"
    if i: "i < length ?ls" for i
  proof -
    have "?ls ! i \<in> set ?ls" using i by simp
    then have t: "trim (?ls ! i) \<noteq> []" by (simp add: kept_lines_def)
    obtain e where e: "parseLogLine env (?ls ! i) filePath (i + 1) = Some e"
      "raw e = ?ls ! i" "lineNumber e = i + 1"
      "isStructured e \<or> e = createFallbackEntry env (?ls ! i) filePath (i + 1)"
      using parseLogLine_Some by blast
    have n: "?es ! i = e" using nth [OF i] e(1) by simp
    have c: "e = createFallbackEntry env (?ls ! i) filePath (i + 1)"
      if "parseLogLine_try env (?ls ! i) filePath (i + 1) = Inl err" for err
      using that e(1) by (simp add: parseLogLine_def)
    have "e = createFallbackEntry env (?ls ! i) filePath (i + 1) \<and> \<not> isStructured e \<and> message e \<noteq> []"
      if "case JSON_parse env (?ls ! i) of None \<Rightarrow> True | Some parsed \<Rightarrow> \<not> has_required_fields parsed"
      using parseLogLine_fallback [OF that, of filePath "i + 1"] e(1) trim_nonempty_fallback [OF t]
      by (auto simp: createFallbackEntry_def)
    with t e c show ?thesis unfolding n by blast
  qed
  from len each show ?thesis by blast
qed

lemma ex_kept: "kept_lines ex_content = [ex_json_line, ex_text_line, ''null'']"
  by code_simp

lemma ex_parse:
  "parseLogContent ex_env ex_content ''debug.log'' =
     [\<lparr>entry_id = ''debug.log:1'', level = LStr ''error'', message = ''Database down'',
       timestamp = ValidDate 1737367500000, sourceFile = ''debug.log'', lineNumber = 1,
       raw = ex_json_line, isStructured = True\<rparr>,
      \<lparr>entry_id = ''debug.log:2'', level = LStr ''debug'',
       message = ''2025-01-20 10:00:00 INFO User logged in'',
       timestamp = ValidDate 1737400000000, sourceFile = ''debug.log'', lineNumber = 2,
       raw = ex_text_line, isStructured = False\<rparr>,
      \<lparr>entry_id = ''debug.log:3'', level = LStr ''debug'', message = ''null'',
       timestamp = ValidDate 1737400000000, sourceFile = ''debug.log'', lineNumber = 3,
       raw = ''null'', isStructured = False\<rparr>]"
  by code_simp

theorem parser_totality_witness:
  "kept_lines ex_content = [ex_json_line, ex_text_line, ''null'']
   \<and> JSON_parse ex_env ex_text_line = None
   \<and> parseLogLine_try ex_env ''null'' ''debug.log'' 3 = Inl TypeError
   \<and> length (parseLogContent ex_env ex_content ''debug.log'') = 3
   \<and> parseLogContent ex_env ex_content ''debug.log'' ! 1
       = createFallbackEntry ex_env ex_text_line ''debug.log'' 2
   \<and> isStructured (parseLogContent ex_env ex_content ''debug.log'' ! 1) = False
   \<and> parseLogContent ex_env ex_content ''debug.log'' ! 2
       = createFallbackEntry ex_env ''null'' ''debug.log'' 3"
proof -
  have p: "JSON_parse ex_env ex_text_line = None" by code_simp
  have t: "parseLogLine_try ex_env ''null'' ''debug.log'' 3 = Inl TypeError" by code_simp
  have i: "1 < length (kept_lines ex_content)" "2 < length (kept_lines ex_content)"
    by (simp_all add: ex_kept)
  have k: "kept_lines ex_content ! 1 = ex_text_line" "kept_lines ex_content ! 2 = ''null''"
    by (simp_all add: ex_kept)
  from parser_totality [of ex_env ex_content "''debug.log''"] i
  have "length (parseLogContent ex_env ex_content ''debug.log'') = length (kept_lines ex_content)"
    and "(case JSON_parse ex_env (kept_lines ex_content ! 1) of
                None \<Rightarrow> True | Some parsed \<Rightarrow> \<not> has_required_fields parsed) \<longrightarrow>
             parseLogContent ex_env ex_content ''debug.log'' ! 1
               = createFallbackEntry ex_env (kept_lines ex_content ! 1) ''debug.log'' (1 + 1)
             \<and> \<not> isStructured (parseLogContent ex_env ex_content ''debug.log'' ! 1)"
    and "\<forall>err. parseLogLine_try ex_env (kept_lines ex_content ! 2) ''debug.log'' (2 + 1) = Inl err \<longrightarrow>
             parseLogContent ex_env ex_content ''debug.log'' ! 2
               = createFallbackEntry ex_env (kept_lines ex_content ! 2) ''debug.log'' (2 + 1)"
    by blast+
  with p t k ex_kept show ?thesis by (auto simp add: numeral_2_eq_2 numeral_3_eq_3)
qed

subsection \<open>The level of a fallback entry\<close>

text \<open>The code applies the rules for the name to the whole path.\<close>

lemma inferLogLevel_spec: "inferLogLevel line filePath = spec_fallback_level filePath line"
  by (simp add: inferLogLevel_def spec_fallback_level_def first_rule_def Let_def)

lemma fallback_level_by_path:
  "level (createFallbackEntry env line filePath n) = LStr (spec_fallback_level filePath line)
   \<and> (js_includes filePath ''error'' \<longrightarrow> inferLogLevel line filePath = ''error'')
   \<and> (\<not> js_includes filePath ''error'' \<and> js_includes filePath ''debug'' \<longrightarrow>
        inferLogLevel line filePath = ''debug'')"
proof -
  have "level (createFallbackEntry env line filePath n) = LStr (spec_fallback_level filePath line)"
    by (simp add: createFallbackEntry_def inferLogLevel_spec)
  then show ?thesis by (simp add: inferLogLevel_def)
qed

text \<open>With the bare name as the path, the line of the scenario gets the level debug.\<close>

lemma ex_scenario_bare_name:
  "inferLogLevel ex_text_line ''debug.log'' = ''debug''
   \<and> js_includes (toLowerCase ex_text_line) ''info''"
  by code_simp

text \<open>
  Claim C6 (precedence of the fallback level): the code does not do what the claim
  says. The rules for the file name are applied to the whole path, directories
  included. The file \<^verbatim>\<open>/srv/error-tracker/logs/debug.log\<close> is named \<^verbatim>\<open>debug.log\<close>, a name
  that has \<^verbatim>\<open>debug\<close> and not \<^verbatim>\<open>error\<close> in it, so that the line
  \<^verbatim>\<open>2025-01-20 10:00:00 INFO User logged in\<close> is to get the level debug; the parser
  gives it the level error, for the \<^verbatim>\<open>error\<close> in the directory.
\<close>

theorem fallback_level_reads_directories:
  "last_segment ex_nested_path = ''debug.log''
   \<and> spec_fallback_level (last_segment ex_nested_path) ex_text_line = ''debug''
   \<and> inferLogLevel ex_text_line ex_nested_path = ''error''
   \<and> parseLogLine ex_env ex_text_line ex_nested_path 1 =
       Some \<lparr>entry_id = ''debug.log:1'', level = LStr ''error'',
             message = ''2025-01-20 10:00:00 INFO User logged in'',
             timestamp = ValidDate 1737400000000, sourceFile = ex_nested_path,
             lineNumber = 1, raw = ex_text_line, isStructured = False\<rparr>"
  by code_simp

subsection \<open>Entry ids\<close>

lemma entry_id_format:
  "i < length (kept_lines fileContent) \<Longrightarrow>
   entry_id (parseLogContent env fileContent filePath ! i)
     = (if last_segment filePath = [] then filePath else last_segment filePath)
       @ '':'' @ show_nat (i + 1)"
proof -
  assume i: "i < length (kept_lines fileContent)"
  obtain e where "parseLogLine env (kept_lines fileContent ! i) filePath (i + 1) = Some e"
    "entry_id e = generateEntryId filePath (i + 1)"
    using parseLogLine_Some by blast
  with i show ?thesis
    by (simp add: parseLogContent_eq generateEntryId_def)
qed

text \<open>
  Claim C9 (entry ids): the ids have the stated format (lemma \<open>entry_id_format\<close>), but
  they are not distinct within one load. Two configured directories \<^verbatim>\<open>/a\<close> and \<^verbatim>\<open>/b\<close>
  that each hold a file \<^verbatim>\<open>debug.log\<close> give two different entries with the id
  \<^verbatim>\<open>debug.log:1\<close>.
\<close>

theorem entry_ids_collide:
  "loadLogs_entries ex_env [(''/a/debug.log'', Some ''first''), (''/b/debug.log'', Some ''second'')]
     = [\<lparr>entry_id = ''debug.log:1'', level = LStr ''debug'', message = ''first'',
         timestamp = ValidDate 1737400000000, sourceFile = ''/a/debug.log'',
         lineNumber = 1, raw = ''first'', isStructured = False\<rparr>,
        \<lparr>entry_id = ''debug.log:1'', level = LStr ''debug'', message = ''second'',
         timestamp = ValidDate 1737400000000, sourceFile = ''/b/debug.log'',
         lineNumber = 1, raw = ''second'', isStructured = False\<rparr>]"
  by code_simp

end
